theory Spec2Isabelle
  imports Main "HOL-Library.Sublist" "HOL-Library.Char_ord" "HOL-Library.Monad_Syntax"
begin

section \<open>Bytes, C strings and buffers\<close>

text \<open>
  A \<^typ>\<open>char\<close> is one byte. A buffer (a C array of \<open>char\<close>) is the list of its
  bytes, its length the array's size. The C string held by a buffer ends before the
  first NUL byte. A string that arrives from outside (an element of \<open>argv\<close>, a path) is
  the list of its bytes without the terminating NUL.
\<close>

abbreviation NUL :: char where "NUL \<equiv> CHR 0x00"
abbreviation TAB :: char where "TAB \<equiv> CHR 0x09"
abbreviation LF :: char where "LF \<equiv> CHR 0x0A"
abbreviation VT :: char where "VT \<equiv> CHR 0x0B"
abbreviation FF :: char where "FF \<equiv> CHR 0x0C"
abbreviation CR :: char where "CR \<equiv> CHR 0x0D"

definition cstr :: "string \<Rightarrow> string" where
  "cstr m = takeWhile (\<lambda>c. c \<noteq> NUL) m"

text \<open>
  Writing through a pointer: \<open>None\<close> is a write outside the array (undefined behaviour
  in C), so that a result \<open>Some\<close> says every write stayed inside.
\<close>

definition store :: "string \<Rightarrow> nat \<Rightarrow> char \<Rightarrow> string option" where
  "store m i c = (if i < length m then Some (m[i := c]) else None)"

definition poke :: "string \<Rightarrow> nat \<Rightarrow> string \<Rightarrow> string option" where
  "poke m off w =
     (if off + length w \<le> length m
      then Some (take off m @ w @ drop (off + length w) m) else None)"

text \<open>
  \<open>snprintf(buf + off, size, fmt, ...)\<close> where the format expands to \<open>s\<close>: at most
  \<open>size - 1\<close> bytes of \<open>s\<close> and a NUL are written (nothing when \<open>size\<close> is 0), and the
  return value is the length of \<open>s\<close>, truncated or not.
\<close>

definition snprintf :: "string \<Rightarrow> nat \<Rightarrow> nat \<Rightarrow> string \<Rightarrow> (string \<times> nat) option" where
  "snprintf m off sz s =
     (if sz = 0 then Some (m, length s)
      else map_option (\<lambda>m'. (m', length s)) (poke m off (take (sz - 1) s @ [NUL])))"

section \<open>The C library functions the program calls\<close>

text \<open>
  These work on C strings: the list of bytes before the terminating NUL. A caller that
  holds a buffer passes \<^term>\<open>cstr\<close> of it.
\<close>

abbreviation DQUOTE :: char where "DQUOTE \<equiv> CHR 0x22"
abbreviation SQUOTE :: char where "SQUOTE \<equiv> CHR 0x27"

definition CRLF :: string where
  "CRLF = [CR, LF]"

definition isspace :: "char \<Rightarrow> bool" where
  "isspace c \<longleftrightarrow> c = CHR '' '' \<or> c = TAB \<or> c = LF \<or> c = VT \<or> c = FF \<or> c = CR"

definition isdigit :: "char \<Rightarrow> bool" where
  "isdigit c \<longleftrightarrow> CHR ''0'' \<le> c \<and> c \<le> CHR ''9''"

definition digit_val :: "char \<Rightarrow> nat" where
  "digit_val c = of_char c - 48"

definition digits_val :: "string \<Rightarrow> nat" where
  "digits_val ds = foldl (\<lambda>a d. 10 * a + digit_val d) 0 ds"

text \<open>
  \<open>strstr\<close> and \<open>strchr\<close> return a pointer into the string: here the rest of the
  string from the match on. \<open>strrchr\<close> is used for the position of the last match.
\<close>

fun strstr :: "string \<Rightarrow> string \<Rightarrow> string option" where
  "strstr [] n = (if n = [] then Some [] else None)"
| "strstr (c # h) n = (if prefix n (c # h) then Some (c # h) else strstr h n)"

definition strchr :: "string \<Rightarrow> char \<Rightarrow> string option" where
  "strchr s c = (case dropWhile (\<lambda>x. x \<noteq> c) s of [] \<Rightarrow> None | r \<Rightarrow> Some r)"

definition strrchr :: "string \<Rightarrow> char \<Rightarrow> nat option" where
  "strrchr s c =
     (if c \<in> set s then Some (length s - 1 - length (takeWhile (\<lambda>x. x \<noteq> c) (rev s)))
      else None)"

text \<open>
  The value a decimal conversion (\<open>atoi\<close>, \<open>%d\<close> of \<open>sscanf\<close>) delivers as an \<open>int\<close> of
  32 bits. ISO C leaves the result for a value outside \<open>int\<close> undefined and the C
  libraries differ on it, so what the library at hand returns there is the parameter
  \<open>ovf\<close>; every theorem below holds for every \<open>ovf\<close>.
\<close>

definition INT_MAX :: int where
  "INT_MAX = 2147483647"

definition INT_MIN :: int where
  "INT_MIN = - 2147483648"

definition to_int :: "(int \<Rightarrow> int) \<Rightarrow> int \<Rightarrow> int" where
  "to_int ovf v = (if INT_MIN \<le> v \<and> v \<le> INT_MAX then v else ovf v)"

text \<open>
  A signed decimal number at the start of a string, as \<open>strtol\<close> reads it once the
  white space is skipped: an optional sign, then digits. \<open>None\<close> when no digit follows.
\<close>

definition signed_decimal :: "string \<Rightarrow> int option" where
  "signed_decimal t =
     (case t of
        [] \<Rightarrow> None
      | c # r \<Rightarrow>
          (let ds = takeWhile isdigit (if c = CHR ''-'' \<or> c = CHR ''+'' then r else t)
           in if ds = [] then None
              else Some (if c = CHR ''-'' then - int (digits_val ds) else int (digits_val ds))))"

definition atoi :: "(int \<Rightarrow> int) \<Rightarrow> string \<Rightarrow> int" where
  "atoi ovf s =
     (case signed_decimal (dropWhile isspace s) of None \<Rightarrow> 0 | Some v \<Rightarrow> to_int ovf v)"

text \<open>
  \<open>sscanf(line, "port: %d", &p) == 1\<close>: the bytes \<open>port:\<close> must open the line, the
  space of the format and \<open>%d\<close> skip white space, and \<open>%d\<close> needs a digit after the
  optional sign. \<open>Some p\<close> is the return value 1 with \<open>p\<close> assigned.
\<close>

definition sscanf_port :: "(int \<Rightarrow> int) \<Rightarrow> string \<Rightarrow> int option" where
  "sscanf_port ovf line =
     (if prefix ''port:'' line
      then map_option (to_int ovf) (signed_decimal (dropWhile isspace (drop 5 line)))
      else None)"

text \<open>
  \<open>fgets(line, n, f)\<close> on the unread rest \<open>s\<close> of a file: the number of bytes it
  takes, at most \<open>n - 1\<close> and not past the first newline.
\<close>

definition fgets_len :: "nat \<Rightarrow> string \<Rightarrow> nat" where
  "fgets_len n s =
     (let w = take (n - 1) s; l = takeWhile (\<lambda>c. c \<noteq> LF) w
      in if length l < length w then length l + 1 else length w)"

text \<open>The expansion of \<open>%d\<close>.\<close>

fun dec :: "nat \<Rightarrow> string" where
  "dec n = (if n < 10 then [''0123456789'' ! n]
            else dec (n div 10) @ [''0123456789'' ! (n mod 10)])"

declare dec.simps [simp del]

definition fmt_d :: "int \<Rightarrow> string" where
  "fmt_d v = (if v < 0 then CHR ''-'' # dec (nat (- v)) else dec (nat v))"

text \<open>
  The C string that \<open>snprintf(buf, n, ...)\<close> leaves in a buffer of \<open>n\<close> bytes when the
  format expands to \<open>s\<close>.
\<close>

definition fmt_into :: "nat \<Rightarrow> string \<Rightarrow> string" where
  "fmt_into n s = take (n - 1) s"


section \<open>QueryEncoder: \<open>url_encode\<close>\<close>

definition unreserved :: "char \<Rightarrow> bool" where
  "unreserved c \<longleftrightarrow>
     (CHR ''A'' \<le> c \<and> c \<le> CHR ''Z'') \<or> (CHR ''a'' \<le> c \<and> c \<le> CHR ''z'') \<or>
     (CHR ''0'' \<le> c \<and> c \<le> CHR ''9'') \<or> c = CHR ''-'' \<or> c = CHR ''_'' \<or>
     c = CHR ''.'' \<or> c = CHR ''~''"

definition hex_upper :: "nat \<Rightarrow> char" where
  "hex_upper d = ''0123456789ABCDEF'' ! d"

text \<open>The expansion of the format \<open>"%%%02X"\<close> for an \<open>unsigned char\<close>.\<close>

definition fmt_pct02X :: "char \<Rightarrow> string" where
  "fmt_pct02X c = [CHR ''%'', hex_upper (of_char c div 16), hex_upper (of_char c mod 16)]"

text \<open>
  The loop of \<open>url_encode\<close>, with \<open>i\<close> its index into \<open>dst\<close>. The end of the list \<open>src\<close>
  is its terminating NUL. The sizes are \<open>size_t\<close> in the source; \<open>i + 4\<close> cannot wrap
  there, since \<open>src\<close> and \<open>dst\<close> lie in one address space, so they are \<^typ>\<open>nat\<close> here.
\<close>

fun url_encode_loop :: "string \<Rightarrow> string \<Rightarrow> nat \<Rightarrow> nat \<Rightarrow> string option" where
  "url_encode_loop [] dst dst_sz i = store dst i NUL"
| "url_encode_loop (c # src) dst dst_sz i =
     (if c \<noteq> NUL \<and> i + 4 < dst_sz then
        (if unreserved c then
           do { dst' \<leftarrow> store dst i c;
                url_encode_loop src dst' dst_sz (i + 1) }
         else
           do { (dst', n) \<leftarrow> snprintf dst i (dst_sz - i) (fmt_pct02X c);
                url_encode_loop src dst' dst_sz (i + n) })
      else store dst i NUL)"

definition url_encode :: "string \<Rightarrow> string \<Rightarrow> nat \<Rightarrow> string option" where
  "url_encode src dst dst_sz = url_encode_loop src dst dst_sz 0"

text \<open>
  The encoding the specification describes, with no capacity: an unreserved byte is
  kept, every other byte becomes \<open>%XX\<close>.
\<close>

definition pct_byte :: "char \<Rightarrow> string" where
  "pct_byte c = (if unreserved c then [c] else fmt_pct02X c)"

definition pct_encode :: "string \<Rightarrow> string" where
  "pct_encode s = concat (map pct_byte s)"

text \<open>The specification's character class \<open>[A-Za-z0-9._~-]\<close>, written out.\<close>

definition unreserved_chars :: string where
  "unreserved_chars = ''ABCDEFGHIJKLMNOPQRSTUVWXYZabcdefghijklmnopqrstuvwxyz0123456789._~-''"

text \<open>
  Standard percent-decoding (the decoder is not part of the source; it is the inverse
  the specification's round trip refers to): \<open>%\<close> followed by two hexadecimal digits
  is the byte they denote, every other byte stands for itself.
\<close>

definition hex_val :: "char \<Rightarrow> nat option" where
  "hex_val c =
     (if CHR ''0'' \<le> c \<and> c \<le> CHR ''9'' then Some (of_char c - 48)
      else if CHR ''A'' \<le> c \<and> c \<le> CHR ''F'' then Some (of_char c - 55)
      else if CHR ''a'' \<le> c \<and> c \<le> CHR ''f'' then Some (of_char c - 87)
      else None)"

fun percent_decode :: "string \<Rightarrow> string" where
  "percent_decode [] = []"
| "percent_decode (c # s) =
     (if c = CHR ''%'' then
        (case s of
           h # l # r \<Rightarrow>
             (case (hex_val h, hex_val l) of
                (Some a, Some b) \<Rightarrow> char_of (16 * a + b) # percent_decode r
              | _ \<Rightarrow> c # percent_decode s)
         | _ \<Rightarrow> c # percent_decode s)
      else c # percent_decode s)"

text \<open>
  The bytes the loop produces before its final NUL, as a function of the source, the
  capacity and the index alone.
\<close>

fun enc_out :: "string \<Rightarrow> nat \<Rightarrow> nat \<Rightarrow> string" where
  "enc_out [] dst_sz i = []"
| "enc_out (c # src) dst_sz i =
     (if c \<noteq> NUL \<and> i + 4 < dst_sz
      then pct_byte c @ enc_out src dst_sz (i + length (pct_byte c)) else [])"

section \<open>Constants\<close>

definition BUF_SIZE :: nat where
  "BUF_SIZE = 256 * 1024"

definition MAX_PATH_LEN :: nat where
  "MAX_PATH_LEN = 4096"

definition MAX_URL_LEN :: nat where
  "MAX_URL_LEN = 8192"

section \<open>The file system\<close>

text \<open>
  What \<open>fopen(path, "r")\<close> gives: \<open>None\<close> when it fails, otherwise the bytes the
  stream delivers. The program only reads.
\<close>

type_synonym filesys = "string \<Rightarrow> string option"

section \<open>ConfigLocator: \<open>find_codeplane_dir\<close>\<close>

text \<open>
  The loop over \<open>cwd\<close>. Its result is the directory at which a probe succeeded; both
  exits then format \<open>"%s/.codeplane"\<close> from it. The POSIX build is modelled: the only
  separator is \<open>/\<close>.
\<close>

function find_loop :: "filesys \<Rightarrow> string \<Rightarrow> string option" where
  "find_loop fs cwd =
     (if fs (fmt_into MAX_PATH_LEN (cwd @ ''/.codeplane'')) \<noteq> None then Some cwd
      else if fs (fmt_into MAX_PATH_LEN (cwd @ ''/.codeplane/config.yaml'')) \<noteq> None
      then Some cwd
      else (case strrchr cwd (CHR ''/'') of
              None \<Rightarrow> None
            | Some sep \<Rightarrow> if sep = 0 then None else find_loop fs (take sep cwd)))"
  by pat_completeness auto
termination
  by (relation "measure (\<lambda>(fs, cwd). length cwd)")
     (auto simp: strrchr_def split: if_splits)

declare find_loop.simps [simp del]

text \<open>
  \<open>getcwd(cwd, size)\<close>: \<open>wd\<close> is the working directory the system reports (\<open>None\<close> when
  it cannot); a path that does not fit the buffer with its NUL fails too.
\<close>

definition getcwd :: "string option \<Rightarrow> nat \<Rightarrow> string option" where
  "getcwd wd sz = (case wd of None \<Rightarrow> None | Some d \<Rightarrow> if length d < sz then Some d else None)"

definition find_codeplane_dir :: "string option \<Rightarrow> filesys \<Rightarrow> nat \<Rightarrow> string option" where
  "find_codeplane_dir wd fs out_sz =
     (case getcwd wd MAX_PATH_LEN of
        None \<Rightarrow> None
      | Some cwd \<Rightarrow> map_option (\<lambda>d. fmt_into out_sz (d @ ''/.codeplane'')) (find_loop fs cwd))"

text \<open>
  The directories the specification's walk names, nearest first: the start and every
  proper prefix of it that ends just before a \<open>/\<close>, the empty prefix (the file system
  root of an absolute path) left out.
\<close>

definition walk_dirs :: "string \<Rightarrow> string list" where
  "walk_dirs start =
     start # map (\<lambda>k. take k start)
               (filter (\<lambda>k. start ! k = CHR ''/'') (rev [1..<length start]))"

definition has_marker :: "filesys \<Rightarrow> string \<Rightarrow> bool" where
  "has_marker fs d \<longleftrightarrow>
     fs (d @ ''/.codeplane'') \<noteq> None \<or> fs (d @ ''/.codeplane/config.yaml'') \<noteq> None"

section \<open>ConfigResolver: \<open>read_port\<close> and \<open>read_token\<close>\<close>

text \<open>The \<open>while (fgets(line, sizeof(line), f))\<close> loop over the rest of \<open>config.yaml\<close>.\<close>

function yaml_scan :: "(int \<Rightarrow> int) \<Rightarrow> string \<Rightarrow> int" where
  "yaml_scan ovf s =
     (if s = [] then 7777
      else (case sscanf_port ovf (cstr (take (fgets_len 256 s) s)) of
              Some p \<Rightarrow> p
            | None \<Rightarrow> yaml_scan ovf (drop (fgets_len 256 s) s)))"
  by pat_completeness auto
termination
  by (relation "measure (\<lambda>(ovf, s). length s)")
     (auto simp: fgets_len_def Let_def neq_Nil_conv)

declare yaml_scan.simps [simp del]

definition port_key :: "string \<Rightarrow> string option" where
  "port_key buf =
     (case strstr buf (DQUOTE # ''port'' @ [DQUOTE]) of
        None \<Rightarrow> strstr buf (SQUOTE # ''port'' @ [SQUOTE])
      | Some pp \<Rightarrow> Some pp)"

definition read_port :: "(int \<Rightarrow> int) \<Rightarrow> filesys \<Rightarrow> string \<Rightarrow> int" where
  "read_port ovf fs cpl_dir =
     (case fs (fmt_into MAX_PATH_LEN (cpl_dir @ ''/run/server.json'')) of
        None \<Rightarrow>
          (case fs (fmt_into MAX_PATH_LEN (cpl_dir @ ''/config.yaml'')) of
             None \<Rightarrow> 7777
           | Some y \<Rightarrow> yaml_scan ovf y)
      | Some j \<Rightarrow>
          (let buf = cstr (take (512 - 1) j) in
           case port_key buf of
             None \<Rightarrow> 7777
           | Some pp \<Rightarrow>
               (case strchr pp (CHR '':'') of
                  None \<Rightarrow> 7777
                | Some colon \<Rightarrow> atoi ovf (tl colon))))"

text \<open>
  The trimming loop of \<open>read_token\<close>: from \<open>n\<close> bytes in \<open>out\<close> down to the length
  that is left.
\<close>

fun trim_trailing :: "string \<Rightarrow> nat \<Rightarrow> nat" where
  "trim_trailing out 0 = 0"
| "trim_trailing out (Suc n) =
     (if out ! n = LF \<or> out ! n = CR \<or> out ! n = CHR '' ''
      then trim_trailing out n else Suc n)"

text \<open>The bytes the trimming loop removes.\<close>

definition trailing_ws :: "char set" where
  "trailing_ws = {LF, CR, CHR '' ''}"

text \<open>The C string \<open>read_token\<close> leaves in \<open>out\<close>.\<close>

definition read_token :: "filesys \<Rightarrow> string \<Rightarrow> nat \<Rightarrow> string" where
  "read_token fs cpl_dir out_sz =
     (case fs (fmt_into MAX_PATH_LEN (cpl_dir @ ''/run/token'')) of
        None \<Rightarrow> []
      | Some t \<Rightarrow>
          (let out = take (out_sz - 1) t
           in cstr (take (trim_trailing out (length out)) out)))"


section \<open>HttpClient: \<open>http_get\<close>\<close>

text \<open>
  What the process does to the outside, in order. \<open>Socket\<close> is the call of
  \<open>socket()\<close>, made or failed; \<open>Send\<close> carries the bytes handed to \<open>send\<close>.
\<close>

datatype event =
  Stderr string | Stdout string | Socket | Connect nat | Send string | Recv | Close

text \<open>
  The environment of one run: the working directory the system reports, the files, the
  C library's answer to a decimal outside \<open>int\<close>, whether \<open>socket\<close>, \<open>connect\<close> (to a
  port) and \<open>malloc\<close> succeed, and what the peer delivers to the successive calls of
  \<open>recv\<close> after a request (the end of the list is the closed connection).
\<close>

record env =
  workdir :: "string option"
  files :: filesys
  int_ovf :: "int \<Rightarrow> int"
  socket_ok :: bool
  connect_ok :: "nat \<Rightarrow> bool"
  malloc_ok :: bool
  peer :: "string \<Rightarrow> string list"

text \<open>The two formats of the request, chosen by \<open>token[0]\<close>.\<close>

definition http_request :: "int \<Rightarrow> string \<Rightarrow> string \<Rightarrow> string" where
  "http_request port path_and_query token =
     (if token \<noteq> [] then
        ''GET '' @ path_and_query @ '' HTTP/1.0'' @ CRLF @
        ''Host: localhost:'' @ fmt_d port @ CRLF @
        ''Authorization: Bearer '' @ token @ CRLF @
        ''Accept: application/json'' @ CRLF @
        CRLF
      else
        ''GET '' @ path_and_query @ '' HTTP/1.0'' @ CRLF @
        ''Host: localhost:'' @ fmt_d port @ CRLF @
        ''Accept: application/json'' @ CRLF @
        CRLF)"

definition REQ_SIZE :: nat where
  "REQ_SIZE = MAX_URL_LEN + 512"

text \<open>
  \<open>snprintf(req, sizeof(req), ...)\<close> and \<open>send(s, req, req_len, 0)\<close>: the bytes handed
  to \<open>send\<close> are the first \<open>req_len\<close> bytes of \<open>req\<close>, and \<open>req_len\<close> is the length the
  request would have untruncated; \<open>None\<close> when that reads past the array.
\<close>

definition sent_request :: "int \<Rightarrow> string \<Rightarrow> string \<Rightarrow> string option" where
  "sent_request port path_and_query token =
     do { (req, req_len) \<leftarrow>
            snprintf (replicate REQ_SIZE NUL) 0 REQ_SIZE (http_request port path_and_query token);
          if req_len \<le> REQ_SIZE then Some (take req_len req) else None }"

text \<open>
  The receive loop: \<open>buf\<close> holds the \<open>total\<close> bytes read so far, each chunk is what
  the peer has for one call of \<open>recv\<close>, which takes at most the room that is left.
\<close>

fun recv_loop :: "string list \<Rightarrow> string \<Rightarrow> string" where
  "recv_loop [] buf = buf"
| "recv_loop (chunk # later) buf =
     (let got = take (BUF_SIZE - 1 - length buf) chunk
      in if got = [] then buf
         else if BUF_SIZE - 1 \<le> length (buf @ got) then buf @ got
         else recv_loop later (buf @ got))"

text \<open>
  The rest of \<open>http_get\<close>, from the received bytes \<open>buf\<close> on (the source puts a NUL
  after them, so every C function below sees \<^term>\<open>cstr buf\<close>).
\<close>

definition strncmp_eq :: "string \<Rightarrow> string \<Rightarrow> nat \<Rightarrow> bool" where
  "strncmp_eq a b n \<longleftrightarrow> take n a = take n b"

definition response_body :: "string \<Rightarrow> string" where
  "response_body buf =
     (case strstr (cstr buf) (CRLF @ CRLF) of Some b \<Rightarrow> drop 4 b | None \<Rightarrow> cstr buf)"

definition http_status :: "(int \<Rightarrow> int) \<Rightarrow> string \<Rightarrow> int" where
  "http_status ovf buf =
     (if strncmp_eq (cstr buf) ''HTTP/'' 5
      then (case strchr (cstr buf) (CHR '' '') of Some sp \<Rightarrow> atoi ovf (tl sp) | None \<Rightarrow> 0)
      else 0)"

text \<open>
  The status as the specification words it, on the bytes it is given: the integer after
  the first space when the bytes begin with \<open>HTTP/\<close>, and 0 (unknown) otherwise.
\<close>

definition stated_status :: "(int \<Rightarrow> int) \<Rightarrow> string \<Rightarrow> int" where
  "stated_status ovf bytes =
     (if prefix ''HTTP/'' bytes
      then (case dropWhile (\<lambda>c. c \<noteq> CHR '' '') bytes of [] \<Rightarrow> 0 | sp # t \<Rightarrow> atoi ovf t)
      else 0)"

definition exit_code :: "int \<Rightarrow> int" where
  "exit_code http_stat = (if 200 \<le> http_stat \<and> http_stat < 300 then 0 else 1)"

definition http_finish :: "(int \<Rightarrow> int) \<Rightarrow> string \<Rightarrow> event list \<times> int" where
  "http_finish ovf buf =
     ([Stdout (response_body buf @ [LF])], exit_code (http_status ovf buf))"

text \<open>
  \<open>http_get\<close> in the POSIX build, where \<open>net_init\<close> returns 0. The port goes to
  \<open>connect\<close> as an \<open>unsigned short\<close>.
\<close>

definition http_get :: "env \<Rightarrow> int \<Rightarrow> string \<Rightarrow> string \<Rightarrow> (event list \<times> int) option" where
  "http_get e port path_and_query token =
     (let p = nat (port mod 65536) in
      if \<not> socket_ok e then
        Some ([Socket, Stderr (''cpljson: socket() failed'' @ [LF])], 1)
      else if \<not> connect_ok e p then
        Some ([Socket, Connect p,
               Stderr (''cpljson: cannot connect to localhost:'' @ fmt_d port @ [LF]), Close], 1)
      else
        do { req \<leftarrow> sent_request port path_and_query token;
             if \<not> malloc_ok e then Some ([Socket, Connect p, Send req, Close], 1)
             else (case http_finish (int_ovf e) (recv_loop (peer e req) []) of
                     (out, code) \<Rightarrow>
                       Some ([Socket, Connect p, Send req, Recv, Close] @ out, code)) })"

section \<open>CommandRouter: \<open>main\<close>\<close>

definition usage :: string where
  "usage =
     ''Usage:'' @ [LF] @
     ''  cpljson list  --session S --endpoint E'' @ [LF] @
     ''  cpljson slice --cache C [--path P] [--max-bytes N] [--offset N]'' @ [LF] @
     ''  cpljson meta  --cache C'' @ [LF]"

fun find_arg :: "string list \<Rightarrow> string \<Rightarrow> string option" where
  "find_arg (a # b # rest) name = (if a = name then Some b else find_arg (b # rest) name)"
| "find_arg _ name = None"

text \<open>
  \<open>url_encode(arg, enc, sizeof(enc))\<close> into one of \<open>main\<close>'s arrays of 1024 bytes, read
  back as a C string. The arrays are uninitialised in the source; the result does not
  depend on what they hold (\<open>cstr_url_encode\<close> below), so they start zero-filled here.
\<close>

definition encode_arg :: "string \<Rightarrow> string option" where
  "encode_arg s = map_option cstr (url_encode s (replicate 1024 NUL) 1024)"

definition list_url :: "string \<Rightarrow> string \<Rightarrow> string option" where
  "list_url session endpoint =
     do { enc1 \<leftarrow> encode_arg session;
          enc2 \<leftarrow> encode_arg endpoint;
          Some (fmt_into MAX_URL_LEN
                  (''/sidecar/cache/list?session='' @ enc1 @ ''&endpoint='' @ enc2)) }"

text \<open>\<open>sizeof(url) - (size_t)pos\<close>, in the 64 bits of \<open>size_t\<close>.\<close>

definition size_sub :: "nat \<Rightarrow> nat \<Rightarrow> nat" where
  "size_sub a b = nat ((int a - int b) mod 2 ^ 64)"

text \<open>
  The \<open>slice\<close> branch builds \<open>url\<close> piece by piece at the offset \<open>pos\<close>, the sum of
  the return values of \<open>snprintf\<close> (an argument list cannot get near \<open>INT_MAX\<close> bytes,
  so \<open>pos\<close> is a \<^typ>\<open>nat\<close>).
\<close>

definition slice_url ::
  "string \<Rightarrow> string option \<Rightarrow> string option \<Rightarrow> string option \<Rightarrow> string option" where
  "slice_url cache_id path max_bytes offset =
     do { enc1 \<leftarrow> encode_arg cache_id;
          (url1, pos1) \<leftarrow>
            snprintf (replicate MAX_URL_LEN NUL) 0 MAX_URL_LEN
              (''/sidecar/cache/slice?cache='' @ enc1);
          (url2, pos2) \<leftarrow>
            (case path of
               None \<Rightarrow> Some (url1, pos1)
             | Some p \<Rightarrow>
                 do { enc2 \<leftarrow> encode_arg p;
                      (u, n) \<leftarrow> snprintf url1 pos1 (size_sub MAX_URL_LEN pos1) (''&path='' @ enc2);
                      Some (u, pos1 + n) });
          (url3, pos3) \<leftarrow>
            (case max_bytes of
               None \<Rightarrow> Some (url2, pos2)
             | Some mb \<Rightarrow>
                 do { (u, n) \<leftarrow>
                        snprintf url2 pos2 (size_sub MAX_URL_LEN pos2) (''&max_bytes='' @ mb);
                      Some (u, pos2 + n) });
          url4 \<leftarrow>
            (case offset of
               None \<Rightarrow> Some url3
             | Some off \<Rightarrow>
                 map_option fst
                   (snprintf url3 pos3 (size_sub MAX_URL_LEN pos3) (''&offset='' @ off)));
          Some (cstr url4) }"

definition meta_url :: "string \<Rightarrow> string option" where
  "meta_url cache_id =
     do { enc1 \<leftarrow> encode_arg cache_id;
          Some (fmt_into MAX_URL_LEN (''/sidecar/cache/meta?cache='' @ enc1)) }"

text \<open>\<open>main\<close>: the events of the run and the exit code.\<close>

definition main :: "env \<Rightarrow> string list \<Rightarrow> (event list \<times> int) option" where
  "main e argv =
     (if length argv < 2 then Some ([Stderr usage], 1)
      else
        let cmd = argv ! 1 in
        case find_codeplane_dir (workdir e) (files e) MAX_PATH_LEN of
          None \<Rightarrow>
            Some ([Stderr (''cpljson: .codeplane/ not found (are you in a CodePlane repo?)''
                           @ [LF])], 1)
        | Some cpl_dir \<Rightarrow>
            let port = read_port (int_ovf e) (files e) cpl_dir;
                token = read_token (files e) cpl_dir 512
            in
            if cmd = ''list'' then
              (case (find_arg argv ''--session'', find_arg argv ''--endpoint'') of
                 (Some session, Some endpoint) \<Rightarrow>
                   do { url \<leftarrow> list_url session endpoint; http_get e port url token }
               | _ \<Rightarrow>
                   Some ([Stderr (''cpljson list: --session and --endpoint required'' @ [LF])],
                         1))
            else if cmd = ''slice'' then
              (case find_arg argv ''--cache'' of
                 None \<Rightarrow> Some ([Stderr (''cpljson slice: --cache required'' @ [LF])], 1)
               | Some cache_id \<Rightarrow>
                   do { url \<leftarrow> slice_url cache_id (find_arg argv ''--path'')
                                (find_arg argv ''--max-bytes'') (find_arg argv ''--offset'');
                        http_get e port url token })
            else if cmd = ''meta'' then
              (case find_arg argv ''--cache'' of
                 None \<Rightarrow> Some ([Stderr (''cpljson meta: --cache required'' @ [LF])], 1)
               | Some cache_id \<Rightarrow>
                   do { url \<leftarrow> meta_url cache_id; http_get e port url token })
            else
              Some ([Stderr (''cpljson: unknown command '' @ [SQUOTE] @ cmd @ [SQUOTE, LF]),
                     Stderr usage], 1))"

text \<open>
  The argument vectors of the specification's error rule: no subcommand, a required argument
  of the subcommand missing, or a subcommand that is none of \<open>list\<close>, \<open>slice\<close>, \<open>meta\<close>.
  An argument is given when its name stands among the words after the subcommand and a
  value follows it; the program name and the subcommand are not arguments.
\<close>

definition arg_given :: "string list \<Rightarrow> string \<Rightarrow> bool" where
  "arg_given argv name \<longleftrightarrow> name \<in> set (butlast (drop 2 argv))"

definition usage_error :: "string list \<Rightarrow> bool" where
  "usage_error argv \<longleftrightarrow>
     length argv < 2 \<or>
     (argv ! 1 = ''list'' \<and>
        (\<not> arg_given argv ''--session'' \<or> \<not> arg_given argv ''--endpoint'')) \<or>
     ((argv ! 1 = ''slice'' \<or> argv ! 1 = ''meta'') \<and> \<not> arg_given argv ''--cache'') \<or>
     (argv ! 1 \<noteq> ''list'' \<and> argv ! 1 \<noteq> ''slice'' \<and> argv ! 1 \<noteq> ''meta'')"

text \<open>The names that \<open>main\<close> looks up with \<open>find_arg\<close> as required arguments.\<close>

definition option_names :: "string set" where
  "option_names = {''--session'', ''--endpoint'', ''--cache''}"

definition not_found_msg :: string where
  "not_found_msg = ''cpljson: .codeplane/ not found (are you in a CodePlane repo?)'' @ [LF]"

text \<open>
  A buffer of \<open>n\<close> bytes that holds the string \<open>s\<close> and is zero after it, and the pieces of
  the query string of \<open>slice\<close>: the path through the encoder, and a value behind its key as
  it was given.
\<close>

definition padded :: "nat \<Rightarrow> string \<Rightarrow> string" where
  "padded n s = s @ replicate (n - length s) NUL"

definition query_path :: "string option \<Rightarrow> string" where
  "query_path path = (case path of None \<Rightarrow> [] | Some p \<Rightarrow> ''&path='' @ enc_out p 1024 0)"

definition query_raw :: "string \<Rightarrow> string option \<Rightarrow> string" where
  "query_raw key v = (case v of None \<Rightarrow> [] | Some x \<Rightarrow> key @ x)"

section \<open>Example inputs for the witnesses\<close>

definition env0 :: env where
  "env0 = \<lparr>workdir = None, files = (\<lambda>p. None), int_ovf = id, socket_ok = True,
     connect_ok = (\<lambda>p. True), malloc_ok = True,
     peer = (\<lambda>req. [''HTTP/1.0 200 OK'' @ CRLF, CRLF @ ''{ok}''])\<rparr>"

definition ok_response :: string where
  "ok_response = ''HTTP/1.0 200 OK'' @ CRLF @ CRLF @ ''{ok}''"

definition nul_response :: string where
  "nul_response = ''HTTP/1.0 200 OK'' @ CRLF @ CRLF @ ''ab'' @ [NUL] @ ''cd''"

text \<open>A response with a NUL byte before the status, and a peer that sends it.\<close>

definition nul_status_response :: string where
  "nul_status_response = ''HTTP/1.0'' @ [NUL] @ '' 200 OK'' @ CRLF @ CRLF"

definition env_nul_status :: env where
  "env_nul_status = \<lparr>workdir = None, files = (\<lambda>p. None), int_ovf = id, socket_ok = True,
     connect_ok = (\<lambda>p. True), malloc_ok = True, peer = (\<lambda>req. [nul_status_response])\<rparr>"

definition fs_none :: filesys where
  "fs_none p = None"

definition fs_token :: "string \<Rightarrow> filesys" where
  "fs_token t p = (if p = ''/r/run/token'' then Some t else None)"

definition fs_config :: "string option \<Rightarrow> string option \<Rightarrow> filesys" where
  "fs_config json yaml p =
     (if p = ''/r/run/server.json'' then json
      else if p = ''/r/config.yaml'' then yaml else None)"

definition json_dq :: string where
  "json_dq = ''{'' @ [DQUOTE] @ ''port'' @ [DQUOTE] @ '': 9999}''"

definition json_sq :: string where
  "json_sq = ''{'' @ [SQUOTE] @ ''port'' @ [SQUOTE] @ '': 9999}''"

definition json_no_colon :: string where
  "json_no_colon = ''{'' @ [DQUOTE] @ ''port'' @ [DQUOTE] @ '' 9999}''"

definition json_sq_no_colon :: string where
  "json_sq_no_colon = ''{'' @ [SQUOTE] @ ''port'' @ [SQUOTE] @ '' 9999}''"

text \<open>A \<open>config.yaml\<close> whose only line has 255 bytes before \<open>port: 4242\<close>.\<close>

definition long_yaml :: string where
  "long_yaml = replicate 255 (CHR ''x'') @ ''port: 4242'' @ [LF]"

definition yaml_port :: string where
  "yaml_port = ''host: x'' @ [LF] @ ''port: 4242'' @ [LF]"

definition fs_root :: filesys where
  "fs_root p =
     (if p = ''/.codeplane/config.yaml'' \<or> p = ''//.codeplane/config.yaml'' then Some []
      else None)"

definition fs_proj :: filesys where
  "fs_proj p =
     (if p = ''/proj/.codeplane/config.yaml'' \<or> p = ''/proj/a/.codeplane'' then Some []
      else None)"

text \<open>A run started in \<open>/proj\<close>, which holds \<open>.codeplane/config.yaml\<close>, with nobody listening.\<close>

definition env_proj :: env where
  "env_proj = \<lparr>workdir = Some ''/proj'', files = fs_proj, int_ovf = id, socket_ok = True,
     connect_ok = (\<lambda>p. True), malloc_ok = True, peer = (\<lambda>req. [])\<rparr>"

section \<open>Properties of the encoder\<close>

subsection \<open>Hexadecimal digits and the decoder\<close>

lemma hex_val_hex_upper_all: "\<forall>d\<in>{..<16::nat}. hex_val (hex_upper d) = Some d"
  by code_simp

lemma hex_val_hex_upper: "d < 16 \<Longrightarrow> hex_val (hex_upper d) = Some d"
  using hex_val_hex_upper_all by simp

lemma hex_upper_class_all:
  "\<forall>d\<in>{..<16::nat}. unreserved (hex_upper d)"
  by code_simp

lemma hex_upper_unreserved: "d < 16 \<Longrightarrow> unreserved (hex_upper d)"
  using hex_upper_class_all by simp

lemma unreserved_not_pct: "unreserved c \<Longrightarrow> c \<noteq> CHR ''%''"
  by (auto simp: unreserved_def less_eq_char_def)

lemma unreserved_not_NUL: "unreserved c \<Longrightarrow> c \<noteq> NUL"
  by (auto simp: unreserved_def less_eq_char_def)

lemma of_char_div16: "(of_char (c::char) :: nat) div 16 < 16"
proof -
  have "(of_char c :: nat) < 256" by (rule nat_of_char_less_256) 
  then show ?thesis by (simp add: div_less_iff_less_mult)
qed

lemma length_fmt_pct02X: "length (fmt_pct02X c) = 3"
  by (simp add: fmt_pct02X_def)

lemma length_pct_byte: "length (pct_byte c) = (if unreserved c then 1 else 3)"
  by (simp add: pct_byte_def length_fmt_pct02X)

lemma set_pct_byte: "x \<in> set (pct_byte c) \<Longrightarrow> unreserved x \<or> x = CHR ''%''"
  by (auto simp: pct_byte_def fmt_pct02X_def hex_upper_unreserved of_char_div16 split: if_splits)

lemma percent_decode_fmt:
  "percent_decode (fmt_pct02X c @ s) = c # percent_decode s"
proof -
  have "char_of (16 * ((of_char c :: nat) div 16) + of_char c mod 16) = c"
    by simp
  then show ?thesis
    by (simp add: fmt_pct02X_def hex_val_hex_upper of_char_div16)
qed

lemma percent_decode_pct_byte:
  "percent_decode (pct_byte c @ s) = c # percent_decode s"
  by (simp add: pct_byte_def percent_decode_fmt unreserved_not_pct)

lemma percent_decode_pct_encode: "percent_decode (pct_encode s) = s"
  by (induction s) (simp_all add: pct_encode_def percent_decode_pct_byte)

lemma percent_decode_replicate:
  "c \<noteq> CHR ''%'' \<Longrightarrow> percent_decode (replicate n c) = replicate n c"
  by (induction n) simp_all

subsection \<open>Buffers\<close>

lemma store_Some:
  "i < length m \<Longrightarrow> store m i c = Some (take i m @ c # drop (Suc i) m)"
  by (simp add: store_def upd_conv_take_nth_drop)

lemma snprintf_fits:
  "length s < sz \<Longrightarrow> off + length s < length m \<Longrightarrow>
   snprintf m off sz s = Some (take off m @ s @ NUL # drop (off + length s + 1) m, length s)"
  by (simp add: snprintf_def poke_def)

subsection \<open>The loop\<close>

lemma cstr_append_NUL: "NUL \<notin> set s \<Longrightarrow> cstr (s @ NUL # r) = s"
  by (induction s) (auto simp: cstr_def)

lemma set_enc_out: "x \<in> set (enc_out src dst_sz i) \<Longrightarrow> unreserved x \<or> x = CHR ''%''"
  by (induction src arbitrary: i) (auto dest: set_pct_byte split: if_splits)

lemma NUL_notin_enc_out: "NUL \<notin> set (enc_out src dst_sz i)"
  using set_enc_out [of NUL src dst_sz i] unreserved_not_NUL by auto

lemma enc_out_bound: "i < dst_sz \<Longrightarrow> i + length (enc_out src dst_sz i) < dst_sz"
proof (induction src arbitrary: i)
  case Nil
  then show ?case by simp
next
  case (Cons c src)
  show ?case
  proof (cases "c \<noteq> NUL \<and> i + 4 < dst_sz")
    case True
    then have "i + length (pct_byte c) < dst_sz" by (simp add: length_pct_byte)
    from Cons.IH [OF this] True show ?thesis by simp
  next
    case False
    with Cons.prems show ?thesis by auto
  qed
qed

lemma enc_out_prefix: "\<exists>k \<le> length src. enc_out src dst_sz i = pct_encode (take k src)"
proof (induction src arbitrary: i)
  case Nil
  then show ?case by (simp add: pct_encode_def)
next
  case (Cons c src)
  show ?case
  proof (cases "c \<noteq> NUL \<and> i + 4 < dst_sz")
    case True
    from Cons.IH [of "i + length (pct_byte c)"] obtain k where
      k: "k \<le> length src" "enc_out src dst_sz (i + length (pct_byte c)) = pct_encode (take k src)"
      by blast
    with True have "enc_out (c # src) dst_sz i = pct_encode (take (Suc k) (c # src))"
      by (simp add: pct_encode_def)
    with k(1) show ?thesis by (intro exI [of _ "Suc k"]) simp
  next
    case False
    then have "enc_out (c # src) dst_sz i = pct_encode (take 0 (c # src))"
      by (auto simp add: pct_encode_def)
    then show ?thesis by blast
  qed
qed

lemma enc_out_complete:
  "NUL \<notin> set src \<Longrightarrow> i + length (pct_encode src) + 4 \<le> dst_sz \<Longrightarrow>
   enc_out src dst_sz i = pct_encode src"
proof (induction src arbitrary: i)
  case Nil
  then show ?case by (simp add: pct_encode_def)
next
  case (Cons c src)
  have len: "length (pct_encode (c # src)) = length (pct_byte c) + length (pct_encode src)"
    by (simp add: pct_encode_def)
  have pos: "1 \<le> length (pct_byte c)" by (simp add: length_pct_byte)
  from Cons.prems len pos have cond: "c \<noteq> NUL \<and> i + 4 < dst_sz" by auto
  from Cons.prems len have "i + length (pct_byte c) + length (pct_encode src) + 4 \<le> dst_sz"
    by simp
  with Cons.IH [of "i + length (pct_byte c)"] Cons.prems
  have "enc_out src dst_sz (i + length (pct_byte c)) = pct_encode src" by simp
  with cond show ?case by (simp add: pct_encode_def)
qed

lemma url_encode_loop_result:
  "length dst = dst_sz \<Longrightarrow> i < dst_sz \<Longrightarrow>
   url_encode_loop src dst dst_sz i =
     Some (take i dst @ enc_out src dst_sz i @
           NUL # drop (i + length (enc_out src dst_sz i) + 1) dst)"
proof (induction src arbitrary: dst i)
  case Nil
  then show ?case by (simp add: store_Some)
next
  case (Cons c src)
  show ?case
  proof (cases "c \<noteq> NUL \<and> i + 4 < dst_sz")
    case False
    with Cons.prems show ?thesis by (auto simp add: store_Some)
  next
    case True
    let ?e = "pct_byte c"
    let ?d = "take i dst @ ?e @ NUL # drop (i + length ?e + 1) dst"
    let ?d1 = "take i dst @ c # drop (Suc i) dst"
    have le: "length ?e \<le> 3" "1 \<le> length ?e" by (simp_all add: length_pct_byte)
    define j where "j = i + length ?e"
    define o' where "o' = enc_out src dst_sz j"
    have j: "j < dst_sz" "i < j" "j < length dst"
      using True Cons.prems by (simp_all add: j_def length_pct_byte)
    have sn: "snprintf dst i (dst_sz - i) (fmt_pct02X c) =
        Some (take i dst @ fmt_pct02X c @ NUL # drop (i + 3 + 1) dst, 3)"
    proof -
      from True Cons.prems have "length (fmt_pct02X c) < dst_sz - i"
        and "i + length (fmt_pct02X c) < length dst"
        by (auto simp add: length_fmt_pct02X)
      then show ?thesis
        using snprintf_fits [of "fmt_pct02X c" "dst_sz - i" i dst]
        by (simp add: length_fmt_pct02X)
    qed
    have step: "url_encode_loop (c # src) dst dst_sz i = url_encode_loop src
        (if unreserved c then ?d1 else ?d) dst_sz j"
      using True Cons.prems
      by (simp add: store_Some sn length_fmt_pct02X pct_byte_def j_def)
    define d' where "d' = (if unreserved c then ?d1 else ?d)"
    have ld: "length d' = dst_sz" using Cons.prems True le
      by (auto simp: d'_def length_pct_byte)
    have tk: "take j d' = take i dst @ ?e" using Cons.prems True
      by (auto simp: d'_def j_def length_pct_byte pct_byte_def length_fmt_pct02X)
    have dr: "drop (j + length o' + 1) d' = drop (j + length o' + 1) dst"
      using Cons.prems True
      by (auto simp: d'_def j_def length_pct_byte pct_byte_def length_fmt_pct02X ac_simps)
    have "url_encode_loop src d' dst_sz j =
        Some (take j d' @ o' @ NUL # drop (j + length o' + 1) d')"
      unfolding o'_def by (rule Cons.IH [OF ld j(1)])
    also have "\<dots> = Some (take i dst @ ?e @ o' @ NUL # drop (j + length o' + 1) dst)"
      by (simp only: tk dr append_assoc)
    also have "\<dots> = Some (take i dst @ enc_out (c # src) dst_sz i @
           NUL # drop (i + length (enc_out (c # src) dst_sz i) + 1) dst)"
      using True by (simp add: j_def o'_def add.assoc)
    finally show ?thesis using step by (simp add: d'_def)
  qed
qed

lemma enc_out_replicate:
  "unreserved a \<Longrightarrow> enc_out (replicate n a) dst_sz i = replicate (min n (dst_sz - 4 - i)) a"
proof (induction n arbitrary: i)
  case 0
  then show ?case by simp
next
  case (Suc n)
  show ?case
  proof (cases "i + 4 < dst_sz")
    case True
    then have "min (Suc n) (dst_sz - 4 - i) = Suc (min n (dst_sz - 4 - (i + 1)))" by auto
    with Suc True show ?thesis
      by (simp add: unreserved_not_NUL pct_byte_def)
  next
    case False
    then show ?thesis by simp
  qed
qed

subsection \<open>The character class\<close>

lemma upper_all: "\<forall>n\<in>{65..90::nat}. char_of n \<in> set unreserved_chars"
  by code_simp
lemma lower_all: "\<forall>n\<in>{97..122::nat}. char_of n \<in> set unreserved_chars"
  by code_simp
lemma digit_all: "\<forall>n\<in>{48..57::nat}. char_of n \<in> set unreserved_chars"
  by code_simp
lemma unreserved_chars_all: "\<forall>c\<in>set unreserved_chars. unreserved c"
  by code_simp

lemma unreserved_iff: "unreserved c \<longleftrightarrow> c \<in> set unreserved_chars"
proof
  assume u: "unreserved c"
  define n :: nat where "n = of_char c"
  have c: "c = char_of n" by (simp add: n_def)
  from u consider "n \<in> {65..90}" | "n \<in> {97..122}" | "n \<in> {48..57}"
    | "c = CHR ''-'' \<or> c = CHR ''_'' \<or> c = CHR ''.'' \<or> c = CHR ''~''"
    by (auto simp: unreserved_def less_eq_char_def n_def)
  then show "c \<in> set unreserved_chars"
  proof cases
    case 1 with upper_all c show ?thesis by blast
  next
    case 2 with lower_all c show ?thesis by blast
  next
    case 3 with digit_all c show ?thesis by blast
  next
    case 4 then show ?thesis by (auto simp: unreserved_chars_def)
  qed
next
  assume "c \<in> set unreserved_chars"
  with unreserved_chars_all show "unreserved c" by blast
qed

subsection \<open>The whole function\<close>

lemma url_encode_result:
  assumes "length dst = dst_sz" "1 \<le> dst_sz"
  shows "url_encode src dst dst_sz =
     Some (enc_out src dst_sz 0 @ NUL # drop (length (enc_out src dst_sz 0) + 1) dst)"
  using url_encode_loop_result [of dst dst_sz 0 src] assms by (simp add: url_encode_def)

lemma cstr_url_encode:
  assumes "length dst = dst_sz" "1 \<le> dst_sz"
  shows "map_option cstr (url_encode src dst dst_sz) = Some (enc_out src dst_sz 0)"
  by (simp add: url_encode_result [OF assms] cstr_append_NUL NUL_notin_enc_out)

lemma length_pct_encode_le: "length (pct_encode s) \<le> 3 * length s"
  by (induction s) (simp_all add: pct_encode_def length_pct_byte)

section \<open>Properties of the C library functions\<close>

subsection \<open>\<open>strstr\<close>, \<open>strchr\<close>\<close>

lemma strstr_None_iff: "strstr h n = None \<longleftrightarrow> \<not> sublist n h"
  by (induction h) (auto simp: sublist_Cons_right)

lemma prefix_append_short:
  "prefix xs (ys @ zs) \<Longrightarrow> length xs \<le> length ys \<Longrightarrow> prefix xs ys"
  by (auto simp: prefix_append)

lemma strstr_first:
  assumes "n \<noteq> []" and "\<not> sublist n (pre @ butlast n)"
  shows "strstr (pre @ n @ r) n = Some (n @ r)"
  using assms(2)
proof (induction pre)
  case Nil
  from assms(1) obtain c h where "n @ r = c # h" by (cases n) auto
  moreover have "prefix n (n @ r)" by simp
  ultimately show ?case by simp
next
  case (Cons c pre)
  from Cons.prems have np: "\<not> prefix n (c # pre @ butlast n)"
    and ns: "\<not> sublist n (pre @ butlast n)"
    by (simp_all add: sublist_Cons_right)
  have "\<not> prefix n (c # pre @ n @ r)"
  proof
    assume p: "prefix n (c # pre @ n @ r)"
    have "c # pre @ n @ r = (c # pre @ butlast n) @ (last n # r)"
      using assms(1) by simp
    with p have "prefix n ((c # pre @ butlast n) @ (last n # r))" by simp
    moreover have "length n \<le> length (c # pre @ butlast n)" by simp
    ultimately have "prefix n (c # pre @ butlast n)" by (rule prefix_append_short)
    with np show False ..
  qed
  with Cons.IH [OF ns] show ?case by simp
qed

lemma strchr_first: "c \<notin> set pre \<Longrightarrow> strchr (pre @ c # r) c = Some (c # r)"
  by (induction pre) (auto simp: strchr_def)

lemma strchr_None: "c \<notin> set s \<Longrightarrow> strchr s c = None"
  by (induction s) (auto simp: strchr_def)

lemma strncmp_eq_prefix: "strncmp_eq s ''HTTP/'' 5 \<longleftrightarrow> prefix ''HTTP/'' s"
proof
  assume "strncmp_eq s ''HTTP/'' 5"
  then have "take 5 s = ''HTTP/''" by (simp add: strncmp_eq_def)
  then show "prefix ''HTTP/'' s" by (metis take_is_prefix)
next
  assume "prefix ''HTTP/'' s"
  then obtain r where "s = ''HTTP/'' @ r" by (auto simp: prefix_def)
  then show "strncmp_eq s ''HTTP/'' 5" by (simp add: strncmp_eq_def)
qed

subsection \<open>Decimal conversion\<close>

lemma isdigit_not_space: "isdigit c \<Longrightarrow> \<not> isspace c"
  by (auto simp: isdigit_def isspace_def less_eq_char_def)

lemma isdigit_not_sign: "isdigit c \<Longrightarrow> c \<noteq> CHR ''-'' \<and> c \<noteq> CHR ''+''"
  by (auto simp: isdigit_def less_eq_char_def)

lemma takeWhile_digits:
  "list_all isdigit ds \<Longrightarrow> r = [] \<or> \<not> isdigit (hd r) \<Longrightarrow> takeWhile isdigit (ds @ r) = ds"
  by (induction ds) (auto simp: neq_Nil_conv takeWhile_eq_Nil_iff)

lemma signed_decimal_digits:
  assumes "ds \<noteq> []" "list_all isdigit ds" "r = [] \<or> \<not> isdigit (hd r)"
  shows "signed_decimal (ds @ r) = Some (int (digits_val ds))"
proof -
  from assms(1) obtain c t where ds: "ds = c # t" by (cases ds) auto
  with assms(2) have c: "isdigit c" by simp
  have "takeWhile isdigit (ds @ r) = ds" using assms(2,3) by (rule takeWhile_digits)
  then show ?thesis
    using isdigit_not_sign [OF c] assms(1) by (simp add: signed_decimal_def ds)
qed

lemma to_int_small: "int n \<le> INT_MAX \<Longrightarrow> to_int ovf (int n) = int n"
  by (simp add: to_int_def INT_MIN_def)

lemma atoi_digits:
  assumes "list_all isspace ws" "ds \<noteq> []" "list_all isdigit ds" "r = [] \<or> \<not> isdigit (hd r)"
    and "int (digits_val ds) \<le> INT_MAX"
  shows "atoi ovf (ws @ ds @ r) = int (digits_val ds)"
proof -
  from assms(2) obtain c t where ds: "ds = c # t" by (cases ds) auto
  with assms(3) have c: "\<not> isspace c" by (simp add: isdigit_not_space)
  have "dropWhile isspace (ws @ ds @ r) = ds @ r"
    using assms(1) c by (induction ws) (simp_all add: ds)
  then show ?thesis
    by (simp add: atoi_def signed_decimal_digits [OF assms(2,3,4)] to_int_small [OF assms(5)])
qed

lemma fmt_into_fits: "length s < n \<Longrightarrow> fmt_into n s = s"
  by (simp add: fmt_into_def)

section \<open>Properties of the HTTP client\<close>

lemma cstr_no_NUL: "NUL \<notin> set s \<Longrightarrow> cstr s = s"
  by (induction s) (auto simp: cstr_def)

lemma cstr_first_NUL: "NUL \<notin> set a \<Longrightarrow> cstr (a @ NUL # r) = a"
  by (induction a) (auto simp: cstr_def)

lemma digits_200: "digits_val ''200'' = 200"
  by (simp add: digits_val_def digit_val_def)

lemma isdigit_200: "list_all isdigit ''200''"
  by (simp add: isdigit_def)

lemma http_status_after_space:
  assumes "cstr buf = ''HTTP/'' @ v @ CHR '' '' # t" and "CHR '' '' \<notin> set v"
  shows "http_status ovf buf = atoi ovf t"
proof -
  have p: "prefix ''HTTP/'' (cstr buf)" by (simp add: assms(1))
  have "CHR '' '' \<notin> set (''HTTP/'' @ v)" using assms(2) by simp
  then have "strchr ((''HTTP/'' @ v) @ CHR '' '' # t) (CHR '' '') = Some (CHR '' '' # t)"
    by (rule strchr_first)
  then have "strchr (cstr buf) (CHR '' '') = Some (CHR '' '' # t)" by (simp add: assms(1))
  with p show ?thesis by (simp add: http_status_def strncmp_eq_prefix)
qed

lemma http_status_no_prefix: "\<not> prefix ''HTTP/'' (cstr buf) \<Longrightarrow> http_status ovf buf = 0"
  by (simp add: http_status_def strncmp_eq_prefix)

lemma http_status_no_space: "CHR '' '' \<notin> set (cstr buf) \<Longrightarrow> http_status ovf buf = 0"
  by (simp add: http_status_def strchr_None)

lemma http_status_stated: "http_status ovf buf = stated_status ovf (cstr buf)"
proof (cases "dropWhile (\<lambda>c. c \<noteq> CHR '' '') (cstr buf)")
  case Nil
  show ?thesis
    unfolding http_status_def stated_status_def strncmp_eq_prefix strchr_def Nil by simp
next
  case (Cons sp t)
  show ?thesis
    unfolding http_status_def stated_status_def strncmp_eq_prefix strchr_def Cons by simp
qed

lemma http_get_reaches_finish:
  assumes "socket_ok e" "connect_ok e (nat (port mod 65536))" "malloc_ok e"
    and "sent_request port pq token = Some req"
  shows "http_get e port pq token =
    Some ([Socket, Connect (nat (port mod 65536)), Send req, Recv, Close]
            @ fst (http_finish (int_ovf e) (recv_loop (peer e req) [])),
          snd (http_finish (int_ovf e) (recv_loop (peer e req) [])))"
  using assms by (simp add: http_get_def Let_def split: prod.splits)

lemma snprintf_fresh_fits:
  assumes "length s < n"
  shows "snprintf (replicate n NUL) 0 n s = Some (s @ replicate (n - length s) NUL, length s)"
proof -
  have "replicate (n - length s) NUL = NUL # replicate (n - Suc (length s)) NUL"
    using assms by (cases "n - length s") (simp_all add: Suc_diff_Suc)
  then show ?thesis using assms by (simp add: snprintf_def poke_def)
qed

lemma sent_request_fits:
  assumes "length (http_request port pq token) < REQ_SIZE"
  shows "sent_request port pq token = Some (http_request port pq token)"
  using assms by (simp add: sent_request_def snprintf_fresh_fits)

lemma sent_request_overread:
  assumes "REQ_SIZE < length (http_request port pq token)"
  shows "sent_request port pq token = None"
  using assms by (simp add: sent_request_def snprintf_def poke_def REQ_SIZE_def MAX_URL_LEN_def)

lemma http_request_layout:
  "http_request port pq token =
     ''GET '' @ pq @ '' HTTP/1.0'' @ CRLF @
     ''Host: localhost:'' @ fmt_d port @ CRLF @
     (if token = [] then [] else ''Authorization: Bearer '' @ token @ CRLF) @
     ''Accept: application/json'' @ CRLF @ CRLF"
  by (simp add: http_request_def)

lemma fmt_d_7777: "fmt_d 7777 = ''7777''"
  by (simp add: fmt_d_def dec.simps)

lemma request_t: "http_request 7777 ''/x'' ''t'' =
    ''GET /x HTTP/1.0'' @ CRLF @ ''Host: localhost:7777'' @ CRLF @
    ''Authorization: Bearer t'' @ CRLF @ ''Accept: application/json'' @ CRLF @ CRLF"
  by (simp add: http_request_def fmt_d_7777)

lemma request_empty: "http_request 7777 ''/x'' [] =
    ''GET /x HTTP/1.0'' @ CRLF @ ''Host: localhost:7777'' @ CRLF @
    ''Accept: application/json'' @ CRLF @ CRLF"
  by (simp add: http_request_def fmt_d_7777)

lemma response_body_split:
  assumes "cstr buf = h @ CRLF @ CRLF @ b" and "\<not> sublist (CRLF @ CRLF) (h @ [CR, LF, CR])"
  shows "response_body buf = b"
proof -
  have "strstr (h @ (CRLF @ CRLF) @ b) (CRLF @ CRLF) = Some ((CRLF @ CRLF) @ b)"
    by (rule strstr_first) (use assms(2) in \<open>simp_all add: CRLF_def\<close>)
  then show ?thesis by (simp add: response_body_def assms(1) CRLF_def)
qed

lemma response_body_whole:
  "\<not> sublist (CRLF @ CRLF) (cstr buf) \<Longrightarrow> response_body buf = cstr buf"
  using strstr_None_iff [of "cstr buf" "CRLF @ CRLF"] by (simp add: response_body_def)

lemma http_get_stdout:
  assumes "socket_ok e" "connect_ok e (nat (port mod 65536))" "malloc_ok e"
    and "sent_request port pq token = Some req"
  shows "\<exists>evs code. http_get e port pq token = Some (evs, code) \<and>
     filter (\<lambda>ev. case ev of Stdout _ \<Rightarrow> True | _ \<Rightarrow> False) evs =
       [Stdout (response_body (recv_loop (peer e req) []) @ [LF])]"
  using assms by (simp add: http_get_def Let_def http_finish_def)

section \<open>Properties of the token reader\<close>

lemma trim_trailing_le: "trim_trailing out n \<le> n"
  by (induction n) auto

lemma trim_trailing_removed:
  "trim_trailing out n \<le> i \<Longrightarrow> i < n \<Longrightarrow> out ! i \<in> trailing_ws"
proof (induction n)
  case 0
  then show ?case by simp
next
  case (Suc n)
  show ?case
  proof (cases "out ! n \<in> trailing_ws")
    case True
    show ?thesis
    proof (cases "i = n")
      case True
      with \<open>out ! n \<in> trailing_ws\<close> show ?thesis by simp
    next
      case False
      with Suc.prems True have "trim_trailing out n \<le> i" "i < n"
        by (auto simp: trailing_ws_def)
      then show ?thesis by (rule Suc.IH)
    qed
  next
    case False
    with Suc.prems show ?thesis by (auto simp: trailing_ws_def)
  qed
qed

lemma trim_trailing_last:
  "0 < trim_trailing out n \<Longrightarrow> out ! (trim_trailing out n - 1) \<notin> trailing_ws"
  by (induction n) (auto simp: trailing_ws_def)

lemma trim_trailing_id:
  "0 < n \<Longrightarrow> out ! (n - 1) \<notin> trailing_ws \<Longrightarrow> trim_trailing out n = n"
  by (cases n) (auto simp: trailing_ws_def)

lemma trim_trailing_split:
  fixes out :: string
  defines "k \<equiv> trim_trailing out (length out)"
  shows "out = take k out @ drop k out" and "set (drop k out) \<subseteq> trailing_ws"
    and "take k out = [] \<or> last (take k out) \<notin> trailing_ws"
proof -
  show "out = take k out @ drop k out" by simp
  have kl: "k \<le> length out" unfolding k_def by (rule trim_trailing_le)
  show "set (drop k out) \<subseteq> trailing_ws"
  proof
    fix x assume "x \<in> set (drop k out)"
    then obtain i where i: "i < length (drop k out)" "x = drop k out ! i"
      by (auto simp: in_set_conv_nth)
    with kl have "x = out ! (k + i)" "k + i < length out" by simp_all
    moreover have "trim_trailing out (length out) \<le> k + i" by (simp add: k_def)
    ultimately show "x \<in> trailing_ws" using trim_trailing_removed by blast
  qed
  show "take k out = [] \<or> last (take k out) \<notin> trailing_ws"
  proof (cases "k = 0")
    case True
    then show ?thesis by simp
  next
    case False
    then have k0: "0 < k" by simp
    with kl have ne: "take k out \<noteq> []" and lk: "length (take k out) = k" by auto
    have "last (take k out) = take k out ! (k - 1)"
      using last_conv_nth [OF ne] by (simp only: lk)
    also have "\<dots> = out ! (k - 1)" using k0 by simp
    finally have "last (take k out) = out ! (k - 1)" .
    moreover have "out ! (k - 1) \<notin> trailing_ws"
      using trim_trailing_last [of out "length out"] k0 by (simp add: k_def)
    ultimately show ?thesis by simp
  qed
qed

lemma length_cstr_le: "length (cstr s) \<le> length s"
  by (simp add: cstr_def length_takeWhile_le)

lemma read_token_eval:
  assumes "length t \<le> 511" "NUL \<notin> set kept" "t = kept @ ws" "set ws \<subseteq> trailing_ws"
    "kept = [] \<or> last kept \<notin> trailing_ws"
  shows "read_token (fs_token t) ''/r'' 512 = kept"
proof -
  have k: "trim_trailing (kept @ ws) (length kept + length ws) = length kept"
    using assms(4)
  proof (induction ws rule: rev_induct)
    case Nil
    show ?case
    proof (cases "kept = []")
      case True
      then show ?thesis by simp
    next
      case False
      with assms(5) have "kept ! (length kept - 1) \<notin> trailing_ws"
        by (simp add: last_conv_nth)
      with False show ?thesis by (simp add: trim_trailing_id)
    qed
  next
    case (snoc x xs)
    then have "x \<in> trailing_ws" and xs: "set xs \<subseteq> trailing_ws" by simp_all
    then have x: "x = LF \<or> x = CR \<or> x = CHR '' ''" by (simp add: trailing_ws_def)
    have "trim_trailing (kept @ xs @ [x]) (Suc (length kept + length xs)) =
        trim_trailing (kept @ xs @ [x]) (length kept + length xs)"
      using x by (auto simp: nth_append)
    also have "\<dots> = trim_trailing ((kept @ xs) @ [x]) (length (kept @ xs))" by simp
    also have "\<dots> = trim_trailing (kept @ xs) (length (kept @ xs))"
    proof -
      have "trim_trailing (ys @ zs) n = trim_trailing ys n" if "n \<le> length ys"
        for ys zs :: string and n
        using that by (induction n) (simp_all add: nth_append)
      from this [of "length (kept @ xs)" "kept @ xs" "[x]"] show ?thesis by simp
    qed
    also have "\<dots> = length kept" using snoc.IH [OF xs] by simp
    finally show ?case by simp
  qed
  show ?thesis
    using assms(1,2) k
    by (simp add: read_token_def fs_token_def fmt_into_def MAX_PATH_LEN_def Let_def assms(3)
        cstr_no_NUL)
qed

section \<open>Properties of the port reader\<close>

subsection \<open>\<open>sscanf\<close> and the line loop\<close>

lemma sscanf_port_digits:
  assumes "list_all isspace ws" "ds \<noteq> []" "list_all isdigit ds" "r = [] \<or> \<not> isdigit (hd r)"
    and "int (digits_val ds) \<le> INT_MAX"
  shows "sscanf_port ovf (''port:'' @ ws @ ds @ r) = Some (int (digits_val ds))"
proof -
  from assms(2) obtain c t where ds: "ds = c # t" by (cases ds) auto
  with assms(3) have c: "\<not> isspace c" by (simp add: isdigit_not_space)
  have "dropWhile isspace (ws @ ds @ r) = ds @ r"
    using assms(1) c by (induction ws) (simp_all add: ds)
  then show ?thesis
    by (simp add: sscanf_port_def signed_decimal_digits [OF assms(2,3,4)]
        to_int_small [OF assms(5)])
qed

lemma sscanf_port_no_number:
  assumes "list_all isspace ws"
    and "r = [] \<or> \<not> (isdigit (hd r) \<or> isspace (hd r) \<or> hd r = CHR ''-'' \<or> hd r = CHR ''+'')"
  shows "sscanf_port ovf (''port:'' @ ws @ r) = None"
proof -
  have "dropWhile isspace (ws @ r) = dropWhile isspace r"
    using assms(1) by (induction ws) simp_all
  also have "\<dots> = r" using assms(2) by (cases r) auto
  finally have d: "dropWhile isspace (ws @ r) = r" .
  have s: "signed_decimal r = None"
    using assms(2) by (cases r) (auto simp: signed_decimal_def Let_def)
  show ?thesis by (simp add: sscanf_port_def d s)
qed

lemma sscanf_port_no_prefix: "\<not> prefix ''port:'' l \<Longrightarrow> sscanf_port ovf l = None"
  by (simp add: sscanf_port_def)

lemma takeWhile_not_LF: "LF \<notin> set body \<Longrightarrow> takeWhile (\<lambda>c. c \<noteq> LF) (body @ LF # r) = body"
  by (induction body) auto

lemma takeWhile_all_not_LF: "LF \<notin> set body \<Longrightarrow> takeWhile (\<lambda>c. c \<noteq> LF) body = body"
  by (induction body) auto

lemma fgets_len_line:
  assumes "LF \<notin> set body" "length body < n - 1"
  shows "fgets_len n (body @ LF # rest) = length body + 1"
proof -
  from assms(2) obtain m where m: "n - 1 - length body = Suc m"
    by (cases "n - 1 - length body") auto
  from m have m': "n - Suc (length body) = Suc m" by simp
  have t: "take (n - 1) (body @ LF # rest) = body @ LF # take m rest"
    using assms(2) by (simp add: m')
  have w: "takeWhile (\<lambda>c. c \<noteq> LF) (body @ LF # take m rest) = body"
    using assms(1) by (rule takeWhile_not_LF)
  show ?thesis unfolding fgets_len_def Let_def t w by simp
qed

lemma fgets_len_last:
  assumes "LF \<notin> set body" "length body \<le> n - 1"
  shows "fgets_len n body = length body"
proof -
  have t: "take (n - 1) body = body" using assms(2) by simp
  have w: "takeWhile (\<lambda>c. c \<noteq> LF) body = body"
    using assms(1) by (rule takeWhile_all_not_LF)
  show ?thesis unfolding fgets_len_def Let_def t w by simp
qed

lemma yaml_scan_empty: "yaml_scan ovf [] = 7777"
  by (simp add: yaml_scan.simps)

lemma yaml_scan_line:
  assumes "LF \<notin> set body" "length body < 255"
  shows "yaml_scan ovf (body @ LF # rest) =
    (case sscanf_port ovf (cstr (body @ [LF])) of Some p \<Rightarrow> p | None \<Rightarrow> yaml_scan ovf rest)"
proof -
  have "fgets_len 256 (body @ LF # rest) = length body + 1"
    by (rule fgets_len_line) (use assms in simp_all)
  then show ?thesis
    by (subst yaml_scan.simps) (simp split: option.split)
qed

lemma yaml_scan_last:
  assumes "LF \<notin> set body" "body \<noteq> []" "length body \<le> 255"
  shows "yaml_scan ovf body =
    (case sscanf_port ovf (cstr body) of Some p \<Rightarrow> p | None \<Rightarrow> 7777)"
proof -
  have "fgets_len 256 body = length body"
    by (rule fgets_len_last) (use assms in simp_all)
  then show ?thesis using assms(2)
    by (subst yaml_scan.simps) (simp add: yaml_scan_empty split: option.split)
qed

lemma fgets_len_long:
  assumes "LF \<notin> set (take (n - 1) s)" "n - 1 \<le> length s"
  shows "fgets_len n s = n - 1"
proof -
  have w: "takeWhile (\<lambda>c. c \<noteq> LF) (take (n - 1) s) = take (n - 1) s"
    using assms(1) by (rule takeWhile_all_not_LF)
  show ?thesis unfolding fgets_len_def Let_def w using assms(2) by simp
qed

lemma yaml_scan_long:
  assumes "LF \<notin> set (take 255 s)" "255 \<le> length s"
  shows "yaml_scan ovf s =
    (case sscanf_port ovf (cstr (take 255 s)) of
       Some p \<Rightarrow> p | None \<Rightarrow> yaml_scan ovf (drop 255 s))"
proof -
  have "fgets_len 256 s = 255"
    using fgets_len_long [of 256 s] assms by simp
  moreover have "s \<noteq> []" using assms(2) by auto
  ultimately show ?thesis
    by (subst yaml_scan.simps) (simp split: option.split)
qed

subsection \<open>The key in \<open>server.json\<close>\<close>

lemma port_key_dq:
  assumes "\<not> sublist (DQUOTE # ''port'' @ [DQUOTE]) (pre @ DQUOTE # ''port'')"
  shows "port_key (pre @ (DQUOTE # ''port'' @ [DQUOTE]) @ r) = Some ((DQUOTE # ''port'' @ [DQUOTE]) @ r)"
proof -
  have "strstr (pre @ (DQUOTE # ''port'' @ [DQUOTE]) @ r) (DQUOTE # ''port'' @ [DQUOTE]) =
      Some ((DQUOTE # ''port'' @ [DQUOTE]) @ r)"
    by (rule strstr_first) (use assms in simp_all)
  then show ?thesis by (simp add: port_key_def)
qed

lemma port_key_sq:
  assumes "\<not> sublist (DQUOTE # ''port'' @ [DQUOTE]) (pre @ (SQUOTE # ''port'' @ [SQUOTE]) @ r)"
    and "\<not> sublist (SQUOTE # ''port'' @ [SQUOTE]) (pre @ SQUOTE # ''port'')"
  shows "port_key (pre @ (SQUOTE # ''port'' @ [SQUOTE]) @ r) = Some ((SQUOTE # ''port'' @ [SQUOTE]) @ r)"
proof -
  have "strstr (pre @ (SQUOTE # ''port'' @ [SQUOTE]) @ r) (SQUOTE # ''port'' @ [SQUOTE]) =
      Some ((SQUOTE # ''port'' @ [SQUOTE]) @ r)"
    by (rule strstr_first) (use assms(2) in simp_all)
  moreover have "strstr (pre @ (SQUOTE # ''port'' @ [SQUOTE]) @ r) (DQUOTE # ''port'' @ [DQUOTE]) = None"
    using assms(1) by (simp add: strstr_None_iff)
  ultimately show ?thesis by (simp add: port_key_def)
qed

lemma port_key_none:
  assumes "\<not> sublist (DQUOTE # ''port'' @ [DQUOTE]) buf"
    and "\<not> sublist (SQUOTE # ''port'' @ [SQUOTE]) buf"
  shows "port_key buf = None"
proof -
  have a: "strstr buf (DQUOTE # ''port'' @ [DQUOTE]) = None"
    using assms(1) by (simp add: strstr_None_iff)
  have b: "strstr buf (SQUOTE # ''port'' @ [SQUOTE]) = None"
    using assms(2) by (simp add: strstr_None_iff)
  show ?thesis unfolding port_key_def a b by simp
qed

lemma strchr_after_key_dq:
  "strchr ((DQUOTE # ''port'' @ [DQUOTE]) @ r) (CHR '':'') = strchr r (CHR '':'')"
  by (simp add: strchr_def)

lemma strchr_after_key_sq:
  "strchr ((SQUOTE # ''port'' @ [SQUOTE]) @ r) (CHR '':'') = strchr r (CHR '':'')"
  by (simp add: strchr_def)

lemma read_port_json:
  assumes "length root + 16 < MAX_PATH_LEN" "fs (root @ ''/run/server.json'') = Some j"
  shows "read_port ovf fs root =
    (case port_key (cstr (take 511 j)) of
       None \<Rightarrow> 7777
     | Some pp \<Rightarrow> (case strchr pp (CHR '':'') of None \<Rightarrow> 7777 | Some colon \<Rightarrow> atoi ovf (tl colon)))"
  using assms by (simp add: read_port_def fmt_into_fits Let_def)

lemma read_port_no_json:
  assumes "length root + 16 < MAX_PATH_LEN" "fs (root @ ''/run/server.json'') = None"
  shows "read_port ovf fs root =
    (case fs (root @ ''/config.yaml'') of None \<Rightarrow> 7777 | Some y \<Rightarrow> yaml_scan ovf y)"
  using assms by (simp add: read_port_def fmt_into_fits)

lemma digits_4242: "digits_val ''4242'' = 4242"
  by (simp add: digits_val_def digit_val_def)

lemma digits_9999: "digits_val ''9999'' = 9999"
  by (simp add: digits_val_def digit_val_def)

lemma fs_config_simps:
  "fs_config json yaml (''/r'' @ ''/run/server.json'') = json"
  "fs_config json yaml (''/r'' @ ''/config.yaml'') = yaml"
  by (simp_all add: fs_config_def)

lemma not_port_replicate: "\<not> prefix ''port:'' (cstr (replicate n (CHR ''x'')))"
  by (cases n) (simp_all add: cstr_def)

section \<open>Properties of the locator\<close>

subsection \<open>\<open>strrchr\<close>\<close>

lemma length_takeWhile_all:
  "length (takeWhile P xs) = length xs \<Longrightarrow> takeWhile P xs = xs"
  by (induction xs) (auto split: if_splits dest: le_trans [OF _ length_takeWhile_le])

lemma strrchr_None: "strrchr s c = None \<Longrightarrow> c \<notin> set s"
  by (simp add: strrchr_def split: if_splits)

lemma strrchr_Some:
  assumes "strrchr s c = Some k"
  shows "k < length s" and "s ! k = c" and "\<And>i. k < i \<Longrightarrow> i < length s \<Longrightarrow> s ! i \<noteq> c"
proof -
  let ?P = "\<lambda>x. x \<noteq> c"
  let ?m = "length (takeWhile ?P (rev s))"
  from assms have mem: "c \<in> set s" and k: "k = length s - 1 - ?m"
    by (simp_all add: strrchr_def split: if_splits)
  have "takeWhile ?P (rev s) \<noteq> rev s"
    using mem by (simp add: takeWhile_eq_all_conv)
  moreover have "?m \<le> length (rev s)" by (rule length_takeWhile_le)
  ultimately have m: "?m < length s"
    using length_takeWhile_all [of ?P "rev s"] by (cases "?m = length (rev s)") auto
  then have "\<not> ?P (rev s ! ?m)"
    using nth_length_takeWhile [of ?P "rev s"] by simp
  then have "rev s ! ?m = c" by simp
  moreover have "rev s ! ?m = s ! (length s - Suc ?m)" using m by (simp add: rev_nth)
  ultimately have at: "s ! (length s - Suc ?m) = c" by simp
  from m show "k < length s" by (simp add: k)
  from at show "s ! k = c" by (simp add: k)
  show "s ! i \<noteq> c" if "k < i" "i < length s" for i
  proof -
    let ?j = "length s - Suc i"
    from that m have j: "?j < ?m" by (simp add: k)
    then have "takeWhile ?P (rev s) ! ?j \<in> set (takeWhile ?P (rev s))" by (rule nth_mem)
    then have "?P (takeWhile ?P (rev s) ! ?j)" by (auto dest: set_takeWhileD)
    moreover have "takeWhile ?P (rev s) ! ?j = rev s ! ?j" using j by (rule takeWhile_nth)
    moreover have "rev s ! ?j = s ! (length s - Suc ?j)" using that by (simp add: rev_nth)
    moreover have "length s - Suc ?j = i" using that by simp
    ultimately show ?thesis by simp
  qed
qed

subsection \<open>The directories of the walk\<close>

lemma walk_dirs_single:
  assumes "\<And>i. 1 \<le> i \<Longrightarrow> i < length s \<Longrightarrow> s ! i \<noteq> CHR ''/''"
  shows "walk_dirs s = [s]"
proof -
  have "filter (\<lambda>k. s ! k = CHR ''/'') (rev [1..<length s]) = []"
    using assms by (auto simp: filter_empty_conv)
  then show ?thesis by (simp add: walk_dirs_def)
qed

lemma walk_dirs_step:
  assumes "1 \<le> k" "k < length s" "s ! k = CHR ''/''"
    and "\<And>i. k < i \<Longrightarrow> i < length s \<Longrightarrow> s ! i \<noteq> CHR ''/''"
  shows "walk_dirs s = s # walk_dirs (take k s)"
proof -
  let ?P = "\<lambda>i. s ! i = CHR ''/''"
  have split: "[Suc 0..<length s] = [Suc 0..<k] @ k # [Suc k..<length s]"
  proof -
    have "[Suc 0..<k + (length s - k)] = [Suc 0..<k] @ [k..<k + (length s - k)]"
      using assms(1) by (intro upt_add_eq_append) simp
    moreover have "k + (length s - k) = length s" using assms(2) by simp
    moreover have "[k..<length s] = k # [Suc k..<length s]"
      using assms(2) by (rule upt_conv_Cons)
    ultimately show ?thesis by simp
  qed
  have tail: "filter ?P [Suc k..<length s] = []"
    using assms(4) by (auto simp: filter_empty_conv)
  have "filter ?P (rev [1..<length s]) = rev (filter ?P [1..<length s])"
    by (simp add: rev_filter)
  also have "\<dots> = rev (filter ?P ([Suc 0..<k] @ k # [Suc k..<length s]))"
    using split by simp
  also have "\<dots> = k # rev (filter ?P [1..<k])"
    using assms(3) by (simp add: tail)
  also have "rev (filter ?P [1..<k]) = filter ?P (rev [1..<k])" by (simp add: rev_filter)
  finally have ks: "filter ?P (rev [1..<length s]) = k # filter ?P (rev [1..<k])" .
  have lk: "length (take k s) = k" using assms(2) by simp
  have f: "filter (\<lambda>i. take k s ! i = CHR ''/'') (rev [1..<k]) = filter ?P (rev [1..<k])"
    by (rule filter_cong) auto
  have m: "map (\<lambda>i. take i (take k s)) (filter ?P (rev [1..<k])) =
      map (\<lambda>i. take i s) (filter ?P (rev [1..<k]))"
    by (rule map_cong) (auto simp: min_def)
  have wk: "walk_dirs (take k s) = take k s # map (\<lambda>i. take i s) (filter ?P (rev [1..<k]))"
    by (simp only: walk_dirs_def lk f m)
  have "walk_dirs s = s # map (\<lambda>i. take i s) (k # filter ?P (rev [1..<k]))"
    by (simp only: walk_dirs_def ks)
  also have "\<dots> = s # take k s # map (\<lambda>i. take i s) (filter ?P (rev [1..<k]))"
    by (simp only: list.map)
  also have "\<dots> = s # walk_dirs (take k s)" by (simp only: wk)
  finally show ?thesis .
qed

lemma walk_dirs_mem:
  "d \<in> set (walk_dirs s) \<longleftrightarrow>
     d = s \<or> (\<exists>k. 1 \<le> k \<and> k < length s \<and> s ! k = CHR ''/'' \<and> d = take k s)"
  by (auto simp: walk_dirs_def)

lemma walk_dirs_nearest_first:
  "sorted_wrt (\<lambda>a b. length b < length a) (walk_dirs s)"
proof -
  let ?ks = "filter (\<lambda>k. s ! k = CHR ''/'') (rev [1..<length s])"
  have "sorted_wrt (\<lambda>a b. b < a) (rev [1..<length s])"
    by (simp add: sorted_wrt_rev)
  then have "sorted_wrt (\<lambda>a b. b < a) ?ks" by (rule sorted_wrt_filter)
  moreover have "\<forall>k\<in>set ?ks. k < length s" by auto
  ultimately have "sorted_wrt (\<lambda>a b. length (take b s) < length (take a s)) ?ks"
    by (elim sorted_wrt_mono_rel [rotated]) auto
  then have "sorted_wrt (\<lambda>a b. length b < length a) (map (\<lambda>k. take k s) ?ks)"
    by (simp only: sorted_wrt_map)
  moreover have "\<forall>d\<in>set (map (\<lambda>k. take k s) ?ks). length d < length s" by auto
  ultimately show ?thesis by (simp add: walk_dirs_def)
qed

lemma walk_dirs_length: "d \<in> set (walk_dirs s) \<Longrightarrow> length d \<le> length s"
  by (auto simp: walk_dirs_mem)

subsection \<open>The loop\<close>

lemma find_loop_walk:
  "length cwd + 23 < MAX_PATH_LEN \<Longrightarrow>
   find_loop fs cwd = List.find (has_marker fs) (walk_dirs cwd)"
proof (induction cwd rule: length_induct)
  case (1 cwd)
  have p1: "fmt_into MAX_PATH_LEN (cwd @ ''/.codeplane'') = cwd @ ''/.codeplane''"
    and p2: "fmt_into MAX_PATH_LEN (cwd @ ''/.codeplane/config.yaml'') =
      cwd @ ''/.codeplane/config.yaml''"
    using "1.prems" by (simp_all add: fmt_into_fits)
  obtain w where w: "walk_dirs cwd = cwd # w" by (simp add: walk_dirs_def)
  show ?case
  proof (cases "has_marker fs cwd")
    case True
    then have "find_loop fs cwd = Some cwd"
      by (subst find_loop.simps) (auto simp: p1 p2 has_marker_def)
    with True w show ?thesis by simp
  next
    case False
    then have n1: "fs (cwd @ ''/.codeplane'') = None"
      and n2: "fs (cwd @ ''/.codeplane/config.yaml'') = None"
      by (simp_all add: has_marker_def)
    have step: "find_loop fs cwd =
        (case strrchr cwd (CHR ''/'') of None \<Rightarrow> None
         | Some sep \<Rightarrow> if sep = 0 then None else find_loop fs (take sep cwd))"
      by (subst find_loop.simps) (simp add: p1 p2 n1 n2)
    show ?thesis
    proof (cases "strrchr cwd (CHR ''/'')")
      case None
      then have "CHR ''/'' \<notin> set cwd" by (rule strrchr_None)
      then have "walk_dirs cwd = [cwd]"
        by (intro walk_dirs_single) (metis nth_mem)
      with False step None show ?thesis by simp
    next
      case (Some k)
      note s = strrchr_Some [OF Some]
      show ?thesis
      proof (cases "k = 0")
        case True
        have "walk_dirs cwd = [cwd]"
          by (rule walk_dirs_single) (use s(3) True in auto)
        with False step Some True show ?thesis by simp
      next
        case k0: False
        have wd: "walk_dirs cwd = cwd # walk_dirs (take k cwd)"
          by (rule walk_dirs_step) (use k0 s in auto)
        have "length (take k cwd) < length cwd" using s(1) by simp
        moreover have "length (take k cwd) + 23 < MAX_PATH_LEN" using s(1) "1.prems" by simp
        ultimately have "find_loop fs (take k cwd) =
            List.find (has_marker fs) (walk_dirs (take k cwd))"
          using "1.IH" by blast
        with False step Some k0 wd show ?thesis by simp
      qed
    qed
  qed
qed

lemma find_codeplane_dir_eq:
  assumes "length start + 23 < MAX_PATH_LEN"
  shows "find_codeplane_dir (Some start) fs MAX_PATH_LEN =
     map_option (\<lambda>d. d @ ''/.codeplane'') (List.find (has_marker fs) (walk_dirs start))"
proof -
  have g: "getcwd (Some start) MAX_PATH_LEN = Some start"
    using assms by (simp add: getcwd_def)
  have "fmt_into MAX_PATH_LEN (d @ ''/.codeplane'') = d @ ''/.codeplane''"
    if "List.find (has_marker fs) (walk_dirs start) = Some d" for d
  proof -
    from that have "d \<in> set (walk_dirs start)"
      by (auto simp: find_Some_iff)
    then have "length d \<le> length start" by (rule walk_dirs_length)
    with assms show ?thesis by (simp add: fmt_into_fits)
  qed
  then show ?thesis
    by (cases "List.find (has_marker fs) (walk_dirs start)")
       (simp_all add: find_codeplane_dir_def g find_loop_walk [OF assms])
qed

lemma walk_abc: "walk_dirs ''/a/b/c'' = [''/a/b/c'', ''/a/b'', ''/a'']"
  by code_simp

lemma walk_proj: "walk_dirs ''/proj/a/b/c'' = [''/proj/a/b/c'', ''/proj/a/b'', ''/proj/a'', ''/proj'']"
  by code_simp

subsection \<open>The argument checks of \<open>main\<close>\<close>

lemma main_no_subcommand: "length argv < 2 \<Longrightarrow> main e argv = Some ([Stderr usage], 1)"
  by (simp add: main_def)

lemma main_not_found:
  "2 \<le> length argv \<Longrightarrow> find_codeplane_dir (workdir e) (files e) MAX_PATH_LEN = None \<Longrightarrow>
   main e argv = Some ([Stderr not_found_msg], 1)"
  by (simp add: main_def Let_def not_found_msg_def)

lemma main_list_missing:
  "2 \<le> length argv \<Longrightarrow> find_codeplane_dir (workdir e) (files e) MAX_PATH_LEN = Some d \<Longrightarrow>
   argv ! 1 = ''list'' \<Longrightarrow>
   find_arg argv ''--session'' = None \<or> find_arg argv ''--endpoint'' = None \<Longrightarrow>
   main e argv = Some ([Stderr (''cpljson list: --session and --endpoint required'' @ [LF])], 1)"
  by (auto simp: main_def Let_def split: option.splits)

lemma main_slice_missing:
  "2 \<le> length argv \<Longrightarrow> find_codeplane_dir (workdir e) (files e) MAX_PATH_LEN = Some d \<Longrightarrow>
   argv ! 1 = ''slice'' \<Longrightarrow> find_arg argv ''--cache'' = None \<Longrightarrow>
   main e argv = Some ([Stderr (''cpljson slice: --cache required'' @ [LF])], 1)"
  by (simp add: main_def Let_def)

lemma main_meta_missing:
  "2 \<le> length argv \<Longrightarrow> find_codeplane_dir (workdir e) (files e) MAX_PATH_LEN = Some d \<Longrightarrow>
   argv ! 1 = ''meta'' \<Longrightarrow> find_arg argv ''--cache'' = None \<Longrightarrow>
   main e argv = Some ([Stderr (''cpljson meta: --cache required'' @ [LF])], 1)"
  by (simp add: main_def Let_def)

lemma main_unknown:
  "2 \<le> length argv \<Longrightarrow> find_codeplane_dir (workdir e) (files e) MAX_PATH_LEN = Some d \<Longrightarrow>
   argv ! 1 \<noteq> ''list'' \<Longrightarrow> argv ! 1 \<noteq> ''slice'' \<Longrightarrow> argv ! 1 \<noteq> ''meta'' \<Longrightarrow>
   main e argv =
     Some ([Stderr (''cpljson: unknown command '' @ [SQUOTE] @ argv ! 1 @ [SQUOTE, LF]),
            Stderr usage], 1)"
  by (simp add: main_def Let_def)

lemma find_arg_None_iff: "find_arg argv name = None \<longleftrightarrow> name \<notin> set (butlast argv)"
  by (induction argv name rule: find_arg.induct) auto

lemma find_arg_program_name:
  "2 \<le> length argv \<Longrightarrow> hd argv = name \<Longrightarrow> find_arg argv name = Some (argv ! 1)"
proof -
  assume a: "2 \<le> length argv" "hd argv = name"
  then obtain x y rest where "argv = x # y # rest"
    by (cases argv; cases "tl argv") auto
  with a show ?thesis by simp
qed

lemma find_arg_given:
  assumes "2 \<le> length argv" "hd argv \<noteq> name" "argv ! 1 \<noteq> name"
  shows "find_arg argv name = None \<longleftrightarrow> \<not> arg_given argv name"
proof -
  from assms(1) obtain x y rest where e: "argv = x # y # rest"
    by (cases argv; cases "tl argv") auto
  show ?thesis
    using assms(2,3) unfolding find_arg_None_iff arg_given_def e
    by (cases rest) auto
qed

lemma option_names_not_cmd:
  "''list'' \<notin> option_names" "''slice'' \<notin> option_names" "''meta'' \<notin> option_names"
  by (simp_all add: option_names_def)

lemma find_arg_required:
  assumes "2 \<le> length argv" "hd argv \<notin> option_names" "argv ! 1 \<notin> option_names"
    and "name \<in> option_names"
  shows "find_arg argv name = None \<longleftrightarrow> \<not> arg_given argv name"
  by (rule find_arg_given) (use assms in auto)

lemma main_usage_error:
  assumes "usage_error argv"
    and "length argv < 2 \<or>
      (argv ! 1 \<noteq> ''list'' \<and> argv ! 1 \<noteq> ''slice'' \<and> argv ! 1 \<noteq> ''meta'') \<or>
      hd argv \<notin> option_names"
  shows "\<exists>evs. main e argv = Some (evs, 1) \<and> evs \<noteq> [] \<and> (\<forall>ev\<in>set evs. \<exists>m. ev = Stderr m)"
proof (cases "length argv < 2")
  case True
  then show ?thesis by (simp add: main_no_subcommand)
next
  case False
  then have l: "2 \<le> length argv" by simp
  show ?thesis
  proof (cases "find_codeplane_dir (workdir e) (files e) MAX_PATH_LEN")
    case None
    with l show ?thesis by (simp add: main_not_found)
  next
    case (Some d)
    show ?thesis
    proof (cases "argv ! 1 \<noteq> ''list'' \<and> argv ! 1 \<noteq> ''slice'' \<and> argv ! 1 \<noteq> ''meta''")
      case True
      then show ?thesis using main_unknown [OF l Some] by simp
    next
      case known: False
      with assms(2) False have h: "hd argv \<notin> option_names" by blast
      from known have c: "argv ! 1 \<notin> option_names"
        using option_names_not_cmd by auto
      have f: "find_arg argv name = None \<longleftrightarrow> \<not> arg_given argv name"
        if "name \<in> option_names" for name
        using l h c that by (rule find_arg_required)
      have fs: "find_arg argv ''--session'' = None \<longleftrightarrow> \<not> arg_given argv ''--session''"
        and fe: "find_arg argv ''--endpoint'' = None \<longleftrightarrow> \<not> arg_given argv ''--endpoint''"
        and fc: "find_arg argv ''--cache'' = None \<longleftrightarrow> \<not> arg_given argv ''--cache''"
        by (rule f, simp add: option_names_def)+
      from assms(1) False known consider
        "argv ! 1 = ''list''"
          "find_arg argv ''--session'' = None \<or> find_arg argv ''--endpoint'' = None"
        | "argv ! 1 = ''slice''" "find_arg argv ''--cache'' = None"
        | "argv ! 1 = ''meta''" "find_arg argv ''--cache'' = None"
        unfolding usage_error_def fs fe fc by fastforce
      then show ?thesis
      proof cases
        case 1 then show ?thesis using main_list_missing [OF l Some] by simp
      next
        case 2 then show ?thesis using main_slice_missing [OF l Some] by simp
      next
        case 3 then show ?thesis using main_meta_missing [OF l Some] by simp
      qed
    qed
  qed
qed

lemma main_meta_found:
  assumes "2 \<le> length argv"
    and "find_codeplane_dir (workdir e) (files e) MAX_PATH_LEN = Some d"
    and "argv ! 1 = ''meta''" "find_arg argv ''--cache'' = Some c"
  shows "main e argv =
    do { url \<leftarrow> meta_url c;
         http_get e (read_port (int_ovf e) (files e) d) url (read_token (files e) d 512) }"
  using assms by (simp add: main_def Let_def)

lemma find_proj:
  "find_codeplane_dir (Some ''/proj'') fs_proj MAX_PATH_LEN = Some ''/proj/.codeplane''"
proof -
  have h: "length ''/proj'' + 23 < MAX_PATH_LEN" by (simp add: MAX_PATH_LEN_def)
  have w: "walk_dirs ''/proj'' = [''/proj'']" by code_simp
  show ?thesis
    by (simp add: find_codeplane_dir_eq [OF h] w has_marker_def fs_proj_def)
qed

lemma env_proj_simps:
  "workdir env_proj = Some ''/proj''" "files env_proj = fs_proj"
  "workdir env0 = None"
  by (simp_all add: env_proj_def env0_def)

lemma find_env_proj:
  "find_codeplane_dir (workdir env_proj) (files env_proj) MAX_PATH_LEN = Some ''/proj/.codeplane''"
  by (simp only: env_proj_simps find_proj)

lemma find_env0:
  "find_codeplane_dir (workdir env0) (files env0) MAX_PATH_LEN = None"
  by (simp add: env_proj_simps find_codeplane_dir_def getcwd_def)

subsection \<open>The request paths\<close>

lemma encode_arg_eq: "encode_arg s = Some (enc_out s 1024 0)"
  using cstr_url_encode [of "replicate 1024 NUL" 1024 s] by (simp add: encode_arg_def)

lemma snprintf_fresh:
  "length s < n \<Longrightarrow> snprintf (replicate n NUL) 0 n s = Some (padded n s, length s)"
  by (simp add: snprintf_fresh_fits padded_def)

lemma size_sub_le: "k \<le> n \<Longrightarrow> int n < 2 ^ 64 \<Longrightarrow> size_sub n k = n - k"
proof -
  assume a: "k \<le> n" "int n < 2 ^ 64"
  have x: "int n - int k = int (n - k)" using a(1) by simp
  have le: "int (n - k) \<le> int n" by simp
  have lt: "int (n - k) < 2 ^ 64" using le a(2) by (rule le_less_trans)
  have ge: "0 \<le> int (n - k)" by simp
  have "int (n - k) mod 2 ^ 64 = int (n - k)"
    using ge lt by (rule mod_pos_pos_trivial)
  then show ?thesis unfolding size_sub_def x by simp
qed

lemma MAX_URL_LEN_small: "int MAX_URL_LEN < 2 ^ 64"
  by (simp add: MAX_URL_LEN_def)

lemma snprintf_padded:
  assumes "int n < 2 ^ 64" "length s + length t < n"
  shows "snprintf (padded n s) (length s) (size_sub n (length s)) t =
    Some (padded n (s @ t), length t)"
proof -
  have sz: "size_sub n (length s) = n - length s"
    using assms by (intro size_sub_le) simp_all
  from assms(2) obtain j where j: "n - length s = Suc (length t + j)"
    by (metis add_Suc_right less_imp_Suc_add add.assoc diff_add_inverse)
  have j': "n - (length s + length t) = Suc j" using j by simp
  show ?thesis
    by (simp add: snprintf_def sz poke_def padded_def j j')
qed

lemma cstr_padded: "NUL \<notin> set s \<Longrightarrow> length s < n \<Longrightarrow> cstr (padded n s) = s"
proof -
  assume a: "NUL \<notin> set s" "length s < n"
  then obtain j where "n - length s = Suc j" by (cases "n - length s") auto
  then show ?thesis using a(1) by (simp add: padded_def cstr_append_NUL)
qed

lemma slice_path_step:
  assumes "length s + length (query_path path) < MAX_URL_LEN"
  shows "(case path of
            None \<Rightarrow> Some (padded MAX_URL_LEN s, length s)
          | Some p \<Rightarrow>
              do { enc2 \<leftarrow> encode_arg p;
                   (u, n) \<leftarrow> snprintf (padded MAX_URL_LEN s) (length s)
                     (size_sub MAX_URL_LEN (length s)) (''&path='' @ enc2);
                   Some (u, length s + n) }) =
         Some (padded MAX_URL_LEN (s @ query_path path), length (s @ query_path path))"
proof (cases path)
  case None
  then show ?thesis by (simp add: query_path_def)
next
  case (Some p)
  have l: "length s + length (''&path='' @ enc_out p 1024 0) < MAX_URL_LEN"
    using assms Some by (simp add: query_path_def)
  show ?thesis
    unfolding Some query_path_def option.case encode_arg_eq Option.bind.simps
      snprintf_padded [OF MAX_URL_LEN_small l] prod.case
    by simp
qed

lemma slice_raw_step:
  assumes "length s + length (query_raw key v) < MAX_URL_LEN"
  shows "(case v of
            None \<Rightarrow> Some (padded MAX_URL_LEN s, length s)
          | Some x \<Rightarrow>
              do { (u, n) \<leftarrow> snprintf (padded MAX_URL_LEN s) (length s)
                     (size_sub MAX_URL_LEN (length s)) (key @ x);
                   Some (u, length s + n) }) =
         Some (padded MAX_URL_LEN (s @ query_raw key v), length (s @ query_raw key v))"
proof (cases v)
  case None
  then show ?thesis by (simp add: query_raw_def)
next
  case (Some x)
  have l: "length s + length (key @ x) < MAX_URL_LEN"
    using assms Some by (simp add: query_raw_def)
  show ?thesis
    unfolding Some query_raw_def option.case Option.bind.simps
      snprintf_padded [OF MAX_URL_LEN_small l] prod.case
    by simp
qed

lemma slice_last_step:
  assumes "length s + length (query_raw key v) < MAX_URL_LEN"
  shows "(case v of
            None \<Rightarrow> Some (padded MAX_URL_LEN s)
          | Some x \<Rightarrow>
              map_option fst (snprintf (padded MAX_URL_LEN s) (length s)
                     (size_sub MAX_URL_LEN (length s)) (key @ x))) =
         Some (padded MAX_URL_LEN (s @ query_raw key v))"
proof (cases v)
  case None
  then show ?thesis by (simp add: query_raw_def)
next
  case (Some x)
  have l: "length s + length (key @ x) < MAX_URL_LEN"
    using assms Some by (simp add: query_raw_def)
  show ?thesis
    unfolding Some query_raw_def option.case
      snprintf_padded [OF MAX_URL_LEN_small l]
    by simp
qed

lemma NUL_notin_query_path: "NUL \<notin> set (query_path path)"
  using NUL_notin_enc_out by (cases path) (simp_all add: query_path_def)

lemma NUL_notin_query_raw:
  "NUL \<notin> set key \<Longrightarrow> (\<forall>x. v = Some x \<longrightarrow> NUL \<notin> set x) \<Longrightarrow> NUL \<notin> set (query_raw key v)"
  by (cases v) (simp_all add: query_raw_def)

lemma slice_url_eq:
  assumes fit: "length (''/sidecar/cache/slice?cache='' @ enc_out c 1024 0 @ query_path path @
      query_raw ''&max_bytes='' mb @ query_raw ''&offset='' off) < MAX_URL_LEN"
    and mb: "\<forall>x. mb = Some x \<longrightarrow> NUL \<notin> set x"
    and off: "\<forall>x. off = Some x \<longrightarrow> NUL \<notin> set x"
  shows "slice_url c path mb off =
    Some (''/sidecar/cache/slice?cache='' @ enc_out c 1024 0 @ query_path path @
      query_raw ''&max_bytes='' mb @ query_raw ''&offset='' off)"
proof -
  let ?s1 = "''/sidecar/cache/slice?cache='' @ enc_out c 1024 0"
  let ?s2 = "?s1 @ query_path path"
  let ?s3 = "?s2 @ query_raw ''&max_bytes='' mb"
  let ?s4 = "?s3 @ query_raw ''&offset='' off"
  have l1: "length ?s1 < MAX_URL_LEN" using fit by simp
  have l2: "length ?s1 + length (query_path path) < MAX_URL_LEN" using fit by simp
  have l3: "length ?s2 + length (query_raw ''&max_bytes='' mb) < MAX_URL_LEN" using fit by simp
  have l4: "length ?s3 + length (query_raw ''&offset='' off) < MAX_URL_LEN" using fit by simp
  have l5: "length ?s4 < MAX_URL_LEN" using fit by simp
  have n: "NUL \<notin> set ?s4"
    using NUL_notin_enc_out [of c 1024 0] NUL_notin_query_path [of path]
      NUL_notin_query_raw [OF _ mb, of "''&max_bytes=''"]
      NUL_notin_query_raw [OF _ off, of "''&offset=''"]
    by simp
  have "slice_url c path mb off = Some (cstr (padded MAX_URL_LEN ?s4))"
    unfolding slice_url_def encode_arg_eq [of c] Option.bind.simps snprintf_fresh [OF l1]
      prod.case slice_path_step [OF l2] slice_raw_step [OF l3] slice_last_step [OF l4]
    by (rule refl)
  also have "\<dots> = Some ?s4" by (simp only: cstr_padded [OF n l5])
  finally show ?thesis by simp
qed

lemma length_enc_arg: "length (enc_out s 1024 0) < 1024"
  using enc_out_bound [of 0 1024 s] by simp

lemma list_url_eq:
  "list_url session endpoint =
     Some (''/sidecar/cache/list?session='' @ enc_out session 1024 0 @
           ''&endpoint='' @ enc_out endpoint 1024 0)"
proof -
  have "length (''/sidecar/cache/list?session='' @ enc_out session 1024 0 @
           ''&endpoint='' @ enc_out endpoint 1024 0) < MAX_URL_LEN"
    using length_enc_arg [of session] length_enc_arg [of endpoint]
    by (simp add: MAX_URL_LEN_def)
  then show ?thesis
    by (simp only: list_url_def encode_arg_eq Option.bind.simps fmt_into_fits)
qed

lemma meta_url_eq:
  "meta_url cache_id = Some (''/sidecar/cache/meta?cache='' @ enc_out cache_id 1024 0)"
proof -
  have "length (''/sidecar/cache/meta?cache='' @ enc_out cache_id 1024 0) < MAX_URL_LEN"
    using length_enc_arg [of cache_id] by (simp add: MAX_URL_LEN_def)
  then show ?thesis
    by (simp only: meta_url_def encode_arg_eq Option.bind.simps fmt_into_fits)
qed

lemma enc_abc: "enc_out ''abc'' 1024 0 = ''abc''"
  by (simp add: pct_byte_def unreserved_def)

lemma enc_raw: "enc_out ''1&x=y z'' 1024 0 = ''1%26x%3Dy%20z''"
  by (simp add: pct_byte_def unreserved_def fmt_pct02X_def hex_upper_def)

subsection \<open>A run of \<open>meta\<close> that reaches the network\<close>

lemma enc_meta: "enc_out ''meta'' 1024 0 = ''meta''"
  by (simp add: pct_byte_def unreserved_def)

lemma meta_url_meta: "meta_url ''meta'' = Some ''/sidecar/cache/meta?cache=meta''"
  by (simp only: meta_url_eq enc_meta) simp

lemma main_meta_program_name:
  assumes "2 \<le> length argv"
    and "find_codeplane_dir (workdir e) (files e) MAX_PATH_LEN = Some d"
    and "argv ! 1 = ''meta''" "hd argv = ''--cache''"
  shows "main e argv =
    http_get e (read_port (int_ovf e) (files e) d) ''/sidecar/cache/meta?cache=meta''
      (read_token (files e) d 512)"
proof -
  have "find_arg argv ''--cache'' = Some ''meta''"
    using find_arg_program_name [OF assms(1,4)] assms(3) by simp
  from main_meta_found [OF assms(1-3) this] show ?thesis
    by (simp only: meta_url_meta Option.bind.simps)
qed

lemma read_port_proj: "read_port id fs_proj ''/proj/.codeplane'' = 7777"
proof -
  have h: "length ''/proj/.codeplane'' + 16 < MAX_PATH_LEN" by (simp add: MAX_PATH_LEN_def)
  have n: "fs_proj (''/proj/.codeplane'' @ ''/run/server.json'') = None"
    by (simp add: fs_proj_def)
  have y: "fs_proj (''/proj/.codeplane'' @ ''/config.yaml'') = Some []"
    by (simp add: fs_proj_def)
  show ?thesis
    by (simp only: read_port_no_json [of "''/proj/.codeplane''" fs_proj id, OF h n] y option.case
        yaml_scan_empty)
qed

lemma read_token_proj: "read_token fs_proj ''/proj/.codeplane'' 512 = []"
proof -
  have "length (''/proj/.codeplane'' @ ''/run/token'') < MAX_PATH_LEN"
    by (simp add: MAX_PATH_LEN_def)
  then have "fmt_into MAX_PATH_LEN (''/proj/.codeplane'' @ ''/run/token'') =
      ''/proj/.codeplane'' @ ''/run/token''"
    by (rule fmt_into_fits)
  moreover have "fs_proj (''/proj/.codeplane'' @ ''/run/token'') = None"
    by (simp add: fs_proj_def)
  ultimately show ?thesis by (simp only: read_token_def option.case)
qed

lemma request_meta:
  "http_request 7777 ''/sidecar/cache/meta?cache=meta'' [] =
     ''GET /sidecar/cache/meta?cache=meta HTTP/1.0'' @ CRLF @ ''Host: localhost:7777'' @ CRLF @
     ''Accept: application/json'' @ CRLF @ CRLF"
  by (simp add: http_request_def fmt_d_7777)

lemma http_finish_empty: "http_finish id [] = ([Stdout [LF]], 1)"
proof -
  have "http_status id [] = 0" by (rule http_status_no_prefix) (simp add: cstr_def)
  moreover have "response_body [] = []" by (simp add: response_body_def cstr_def CRLF_def)
  ultimately show ?thesis by (simp add: http_finish_def exit_code_def)
qed

lemma http_get_proj_meta:
  "http_get env_proj 7777 ''/sidecar/cache/meta?cache=meta'' [] =
     Some ([Socket, Connect 7777,
            Send (''GET /sidecar/cache/meta?cache=meta HTTP/1.0'' @ CRLF @
                  ''Host: localhost:7777'' @ CRLF @ ''Accept: application/json'' @ CRLF @ CRLF),
            Recv, Close, Stdout [LF]], 1)"
proof -
  have e: "socket_ok env_proj" "connect_ok env_proj (nat (7777 mod 65536))" "malloc_ok env_proj"
    by (simp_all add: env_proj_def)
  have l: "length (http_request 7777 ''/sidecar/cache/meta?cache=meta'' []) < REQ_SIZE"
    by (simp add: request_meta REQ_SIZE_def MAX_URL_LEN_def CRLF_def)
  have r: "recv_loop (peer env_proj (http_request 7777 ''/sidecar/cache/meta?cache=meta'' []))
      [] = []"
    by (simp add: env_proj_def)
  have i: "int_ovf env_proj = id" by (simp add: env_proj_def)
  have "http_get env_proj 7777 ''/sidecar/cache/meta?cache=meta'' [] =
      Some ([Socket, Connect (nat (7777 mod 65536)),
             Send (http_request 7777 ''/sidecar/cache/meta?cache=meta'' []), Recv, Close]
              @ fst (http_finish id []), snd (http_finish id []))"
    using http_get_reaches_finish [OF e sent_request_fits [OF l]] by (simp only: r i)
  then show ?thesis by (simp add: http_finish_empty request_meta)
qed

lemma main_proj_meta_program_name:
  "main env_proj [''--cache'', ''meta''] =
     Some ([Socket, Connect 7777,
            Send (''GET /sidecar/cache/meta?cache=meta HTTP/1.0'' @ CRLF @
                  ''Host: localhost:7777'' @ CRLF @ ''Accept: application/json'' @ CRLF @ CRLF),
            Recv, Close, Stdout [LF]], 1)"
proof -
  have "main env_proj [''--cache'', ''meta''] =
      http_get env_proj (read_port (int_ovf env_proj) (files env_proj) ''/proj/.codeplane'')
        ''/sidecar/cache/meta?cache=meta'' (read_token (files env_proj) ''/proj/.codeplane'' 512)"
    by (rule main_meta_program_name [OF _ find_env_proj]) simp_all
  also have "\<dots> = http_get env_proj 7777 ''/sidecar/cache/meta?cache=meta'' []"
    by (simp add: env_proj_def read_port_proj read_token_proj)
  finally show ?thesis by (simp only: http_get_proj_meta)
qed

section \<open>QueryEncoder: the claims\<close>

text \<open>
  Claim C10. For every source string and every destination of at least one byte,
  \<open>url_encode\<close> stays inside the destination: no write falls outside it (the result
  is \<open>Some\<close>), the output and its terminating NUL take at most \<open>dst_sz\<close> bytes, the
  result is NUL-terminated, a truncated output is the encoding of a prefix of the
  source, and the bytes after the terminating NUL are left as they were.
\<close>

theorem url_encode_within_capacity:
  assumes "1 \<le> dst_sz" and "length dst = dst_sz"
  shows "\<exists>dst'. url_encode src dst dst_sz = Some dst' \<and> length dst' = dst_sz \<and>
           length (cstr dst') + 1 \<le> dst_sz \<and> dst' ! length (cstr dst') = NUL \<and>
           (\<exists>k\<le>length src. cstr dst' = pct_encode (take k src)) \<and>
           drop (length (cstr dst') + 1) dst' = drop (length (cstr dst') + 1) dst"
proof -
  let ?o = "enc_out src dst_sz 0"
  let ?d = "?o @ NUL # drop (length ?o + 1) dst"
  have r: "url_encode src dst dst_sz = Some ?d"
    by (rule url_encode_result [OF assms(2) assms(1)])
  have c: "cstr ?d = ?o" by (simp add: cstr_append_NUL NUL_notin_enc_out)
  have b: "length ?o < dst_sz" using enc_out_bound [of 0 dst_sz src] assms by simp
  have l: "length ?d = dst_sz" using b assms by simp
  have n: "?d ! length ?o = NUL" by (simp add: nth_append)
  have d: "drop (length ?o + 1) ?d = drop (length ?o + 1) dst" by simp
  from enc_out_prefix [of src dst_sz 0] have p: "\<exists>k\<le>length src. ?o = pct_encode (take k src)" .
  show ?thesis
    apply (rule exI [of _ ?d])
    apply (simp only: c)
    using r l b n d p by simp
qed

theorem url_encode_within_capacity_witness:
  "(1::nat) \<le> 8 \<and> length (replicate 8 (CHR ''x'')) = 8 \<and>
   url_encode ''a b/c'' (replicate 8 (CHR ''x'')) 8 =
     Some (''a%20'' @ [NUL, CHR ''x'', CHR ''x'', CHR ''x'']) \<and>
   (\<exists>dst'. url_encode ''a b/c'' (replicate 8 (CHR ''x'')) 8 = Some dst' \<and> length dst' = 8 \<and>
           length (cstr dst') + 1 \<le> 8 \<and> dst' ! length (cstr dst') = NUL \<and>
           (\<exists>k\<le>length ''a b/c''. cstr dst' = pct_encode (take k ''a b/c'')) \<and>
           drop (length (cstr dst') + 1) dst' = drop (length (cstr dst') + 1) (replicate 8 (CHR ''x'')))"
proof -
  have h1: "(1::nat) \<le> 8" by simp
  have h2: "length (replicate 8 (CHR ''x'')) = 8" by simp
  have e: "url_encode ''a b/c'' (replicate 8 (CHR ''x'')) 8 =
     Some (''a%20'' @ [NUL, CHR ''x'', CHR ''x'', CHR ''x''])" by code_simp
  from url_encode_within_capacity [OF h1 h2, of "''a b/c''"] h1 h2 e show ?thesis
    by blast
qed

text \<open>
  Claim C3, as the code has it. The output holds only bytes of \<open>[A-Za-z0-9._~-]\<close> and
  \<open>%\<close>, and it is the percent-encoding of a prefix of the source (unreserved bytes
  unchanged, every other byte \<open>%XX\<close> in uppercase hexadecimal). It is the encoding of
  the whole source, and percent-decoding gives the source back, when the source has no
  NUL and its encoding is at least four bytes shorter than the capacity; three times
  the source length plus four within the capacity is enough for that.
\<close>

theorem url_encode_output:
  assumes "1 \<le> dst_sz" and "length dst = dst_sz"
  shows "\<exists>dst'. url_encode src dst dst_sz = Some dst' \<and>
           (\<forall>x\<in>set (cstr dst'). x \<in> set unreserved_chars \<or> x = CHR ''%'') \<and>
           (\<exists>k\<le>length src. cstr dst' = pct_encode (take k src)) \<and>
           (NUL \<notin> set src \<and> length (pct_encode src) + 4 \<le> dst_sz \<longrightarrow>
              cstr dst' = pct_encode src \<and> percent_decode (cstr dst') = src) \<and>
           (NUL \<notin> set src \<and> 3 * length src + 4 \<le> dst_sz \<longrightarrow>
              percent_decode (cstr dst') = src)"
proof -
  let ?o = "enc_out src dst_sz 0"
  let ?d = "?o @ NUL # drop (length ?o + 1) dst"
  have r: "url_encode src dst dst_sz = Some ?d"
    by (rule url_encode_result [OF assms(2) assms(1)])
  have c: "cstr ?d = ?o" by (simp add: cstr_append_NUL NUL_notin_enc_out)
  have s: "\<forall>x\<in>set ?o. x \<in> set unreserved_chars \<or> x = CHR ''%''"
    using set_enc_out [of _ src dst_sz 0] by (auto simp: unreserved_iff)
  from enc_out_prefix [of src dst_sz 0]
  have p: "\<exists>k\<le>length src. ?o = pct_encode (take k src)" .
  have f: "?o = pct_encode src \<and> percent_decode ?o = src"
    if "NUL \<notin> set src" "length (pct_encode src) + 4 \<le> dst_sz"
    using enc_out_complete [of src 0 dst_sz] that by (simp add: percent_decode_pct_encode)
  have g: "percent_decode ?o = src" if "NUL \<notin> set src" "3 * length src + 4 \<le> dst_sz"
  proof -
    from that(2) length_pct_encode_le [of src] have "length (pct_encode src) + 4 \<le> dst_sz"
      by simp
    from f [OF that(1) this] show ?thesis by (rule conjunct2)
  qed
  show ?thesis
    apply (rule exI [of _ ?d])
    apply (simp only: c)
    using r s p f g by blast
qed

theorem url_encode_output_witness:
  "(1::nat) \<le> 1024 \<and> length (replicate 1024 NUL) = 1024 \<and>
   NUL \<notin> set ''a b'' \<and> 3 * length ''a b'' + 4 \<le> (1024::nat) \<and>
   pct_encode ''a b'' = ''a%20b'' \<and> length (pct_encode ''a b'') + 4 \<le> (1024::nat) \<and>
   (\<exists>dst'. url_encode ''a b'' (replicate 1024 NUL) 1024 = Some dst' \<and>
      list_all (\<lambda>x. x \<in> set unreserved_chars \<or> x = CHR ''%'') (cstr dst') \<and>
      cstr dst' = ''a%20b'' \<and> percent_decode (cstr dst') = ''a b'')"
proof -
  have h1: "(1::nat) \<le> 1024" by simp
  have h2: "length (replicate 1024 NUL) = 1024" by simp
  have e: "pct_encode ''a b'' = ''a%20b''" by code_simp
  have h3: "NUL \<notin> set ''a b''" by simp
  have h4: "length (pct_encode ''a b'') + 4 \<le> (1024::nat)" by (simp add: e)
  have h5: "3 * length ''a b'' + 4 \<le> (1024::nat)" by simp
  from url_encode_output [OF h1 h2, of "''a b''"] h3 h4 h5 e
  have "\<exists>dst'. url_encode ''a b'' (replicate 1024 NUL) 1024 = Some dst' \<and>
      (\<forall>x\<in>set (cstr dst'). x \<in> set unreserved_chars \<or> x = CHR ''%'') \<and>
      cstr dst' = ''a%20b'' \<and> percent_decode (cstr dst') = ''a b''"
    by (metis (no_types, lifting))
  with h1 h2 h3 h4 h5 e show ?thesis
    by (simp only: list_all_iff) blast
qed

text \<open>
  A source shorter than the capacity is not enough for the round trip: with the
  capacity 1024 that \<open>main\<close> passes, 1021 letters come back as 1020, since the loop
  goes on only while \<open>i + 4 < dst_sz\<close>.
\<close>

theorem url_encode_roundtrip_counterexample:
  "length (replicate 1021 (CHR ''a'')) < (1024::nat) \<and>
   url_encode (replicate 1021 (CHR ''a'')) (replicate 1024 NUL) 1024 =
     Some (replicate 1020 (CHR ''a'') @ NUL # replicate 3 NUL) \<and>
   percent_decode (cstr (replicate 1020 (CHR ''a'') @ NUL # replicate 3 NUL))
     \<noteq> replicate 1021 (CHR ''a'')"
proof -
  have u: "unreserved (CHR ''a'')" by (simp add: unreserved_def)
  have o: "enc_out (replicate 1021 (CHR ''a'')) 1024 0 = replicate 1020 (CHR ''a'')"
    by (simp add: enc_out_replicate [OF u])
  have r: "url_encode (replicate 1021 (CHR ''a'')) (replicate 1024 NUL) 1024 =
     Some (replicate 1020 (CHR ''a'') @ NUL # replicate 3 NUL)"
    by (simp add: url_encode_result [of "replicate 1024 NUL" 1024] o)
  have c: "cstr (replicate 1020 (CHR ''a'') @ NUL # replicate 3 NUL) = replicate 1020 (CHR ''a'')"
    by (rule cstr_append_NUL) simp
  have d: "percent_decode (replicate 1020 (CHR ''a'')) = replicate 1020 (CHR ''a'')"
    by (rule percent_decode_replicate) simp
  have n: "replicate 1020 (CHR ''a'') \<noteq> replicate 1021 (CHR ''a'')"
  proof
    assume "replicate 1020 (CHR ''a'') = replicate 1021 (CHR ''a'')"
    then have "length (replicate 1020 (CHR ''a'')) = length (replicate 1021 (CHR ''a''))"
      by (rule arg_cong)
    then show False by simp
  qed
  show ?thesis by (simp only: r c d) (simp add: n)
qed

section \<open>HttpClient: the claims\<close>

text \<open>
  Claim C4, as the code has it. When the formatted request fits the request array,
  the bytes handed to \<open>send\<close> are the request line \<open>GET <path_and_query> HTTP/1.0\<close>,
  the \<open>Host: localhost:<port>\<close> header, then, only when the token is not empty, the
  \<open>Authorization: Bearer <token>\<close> header, then \<open>Accept: application/json\<close>, each
  ended by CR LF, and a blank line; nothing follows. It is the only \<open>send\<close> of a run
  that gets as far as connecting.
\<close>

theorem http_get_request_bytes:
  "(length (http_request port pq token) < REQ_SIZE \<longrightarrow>
      sent_request port pq token =
        Some (''GET '' @ pq @ '' HTTP/1.0'' @ CRLF @
              ''Host: localhost:'' @ fmt_d port @ CRLF @
              (if token = [] then [] else ''Authorization: Bearer '' @ token @ CRLF) @
              ''Accept: application/json'' @ CRLF @ CRLF)) \<and>
   (\<forall>e req. sent_request port pq token = Some req \<and> socket_ok e \<and>
      connect_ok e (nat (port mod 65536)) \<longrightarrow>
      (\<exists>evs code. http_get e port pq token = Some (evs, code) \<and>
         filter (\<lambda>ev. case ev of Send _ \<Rightarrow> True | _ \<Rightarrow> False) evs = [Send req]))"
proof -
  have a: "sent_request port pq token =
        Some (''GET '' @ pq @ '' HTTP/1.0'' @ CRLF @
              ''Host: localhost:'' @ fmt_d port @ CRLF @
              (if token = [] then [] else ''Authorization: Bearer '' @ token @ CRLF) @
              ''Accept: application/json'' @ CRLF @ CRLF)"
    if "length (http_request port pq token) < REQ_SIZE"
    using sent_request_fits [OF that] by (simp only: http_request_layout)
  have b: "\<exists>evs code. http_get e port pq token = Some (evs, code) \<and>
         filter (\<lambda>ev. case ev of Send _ \<Rightarrow> True | _ \<Rightarrow> False) evs = [Send req]"
    if "sent_request port pq token = Some req" "socket_ok e" "connect_ok e (nat (port mod 65536))"
    for e req
    using that by (cases "malloc_ok e") (simp_all add: http_get_def Let_def http_finish_def)
  from a b show ?thesis by blast
qed

theorem http_get_request_bytes_witness:
  "length (http_request 7777 ''/x'' ''t'') < REQ_SIZE \<and>
   sent_request 7777 ''/x'' ''t'' =
     Some (''GET /x HTTP/1.0'' @ CRLF @ ''Host: localhost:7777'' @ CRLF @
           ''Authorization: Bearer t'' @ CRLF @ ''Accept: application/json'' @ CRLF @ CRLF) \<and>
   length (http_request 7777 ''/x'' []) < REQ_SIZE \<and>
   sent_request 7777 ''/x'' [] =
     Some (''GET /x HTTP/1.0'' @ CRLF @ ''Host: localhost:7777'' @ CRLF @
           ''Accept: application/json'' @ CRLF @ CRLF) \<and>
   socket_ok env0 \<and> connect_ok env0 (nat (7777 mod 65536)) \<and>
   (\<exists>evs code. http_get env0 7777 ''/x'' [] = Some (evs, code) \<and>
      filter (\<lambda>ev. case ev of Send _ \<Rightarrow> True | _ \<Rightarrow> False) evs =
        [Send (''GET /x HTTP/1.0'' @ CRLF @ ''Host: localhost:7777'' @ CRLF @
               ''Accept: application/json'' @ CRLF @ CRLF)])"
proof -
  let ?r1 = "''GET /x HTTP/1.0'' @ CRLF @ ''Host: localhost:7777'' @ CRLF @
           ''Authorization: Bearer t'' @ CRLF @ ''Accept: application/json'' @ CRLF @ CRLF"
  let ?r2 = "''GET /x HTTP/1.0'' @ CRLF @ ''Host: localhost:7777'' @ CRLF @
           ''Accept: application/json'' @ CRLF @ CRLF"
  have l1: "length (http_request 7777 ''/x'' ''t'') < REQ_SIZE"
    by (simp add: request_t REQ_SIZE_def MAX_URL_LEN_def CRLF_def)
  have l2: "length (http_request 7777 ''/x'' []) < REQ_SIZE"
    by (simp add: request_empty REQ_SIZE_def MAX_URL_LEN_def CRLF_def)
  note t1 = http_get_request_bytes [of 7777 "''/x''" "''t''", THEN conjunct1, rule_format, OF l1]
  note t2 = http_get_request_bytes [of 7777 "''/x''" "[]", THEN conjunct1, rule_format, OF l2]
  have s1: "sent_request 7777 ''/x'' ''t'' = Some ?r1"
    using t1 by (simp add: fmt_d_7777)
  have s2: "sent_request 7777 ''/x'' [] = Some ?r2"
    using t2 by (simp add: fmt_d_7777)
  have e: "socket_ok env0" "connect_ok env0 (nat (7777 mod 65536))"
    by (simp_all add: env0_def)
  have h: "sent_request 7777 ''/x'' [] = Some ?r2 \<and> socket_ok env0 \<and>
      connect_ok env0 (nat (7777 mod 65536))"
    using s2 e by (intro conjI)
  note t3 = http_get_request_bytes [of 7777 "''/x''" "[]", THEN conjunct2, rule_format, OF h]
  show ?thesis
    using l1 s1 l2 s2 e t3 by (intro conjI)
qed

text \<open>
  The order the claim gives, with \<open>Authorization\<close> after \<open>Accept\<close>, is not what is
  sent for a token that is not empty.
\<close>

theorem http_get_header_order_counterexample:
  "sent_request 7777 ''/x'' ''t'' =
     Some (''GET /x HTTP/1.0'' @ CRLF @ ''Host: localhost:7777'' @ CRLF @
           ''Authorization: Bearer t'' @ CRLF @ ''Accept: application/json'' @ CRLF @ CRLF) \<and>
   sent_request 7777 ''/x'' ''t'' \<noteq>
     Some (''GET /x HTTP/1.0'' @ CRLF @ ''Host: localhost:7777'' @ CRLF @
           ''Accept: application/json'' @ CRLF @ ''Authorization: Bearer t'' @ CRLF @ CRLF)"
proof -
  have "length (http_request 7777 ''/x'' ''t'') < REQ_SIZE"
    by (simp add: request_t REQ_SIZE_def MAX_URL_LEN_def CRLF_def)
  from sent_request_fits [OF this] show ?thesis
    by (simp add: request_t CRLF_def)
qed

text \<open>
  Claim C5, as the code has it. The exit code of the client is 0 exactly when the status
  is in \<open>[200, 300)\<close>, and it is 0 or 1. The received buffer is read as a C string, up to
  its first NUL byte: the status is the one the specification describes (the integer after
  the first space when the bytes begin with \<open>HTTP/\<close>, and 0 otherwise) computed on that C
  string, which is the whole buffer when it holds no NUL byte. So the status is 0, and the
  exit code 1, when the C string does not begin with \<open>HTTP/\<close> or holds no space; otherwise
  it is \<open>atoi\<close> of what follows its first space, which for a status line \<open>HTTP/v ddd ...\<close>
  is the number \<open>ddd\<close> when that number fits an \<open>int\<close>. The exit code of \<open>http_get\<close> is the
  one computed from the bytes it received.
\<close>

theorem exit_code_by_status:
  "(snd (http_finish ovf buf) = 0 \<longleftrightarrow> 200 \<le> http_status ovf buf \<and> http_status ovf buf < 300) \<and>
   (snd (http_finish ovf buf) = 0 \<or> snd (http_finish ovf buf) = 1) \<and>
   (\<not> prefix ''HTTP/'' (cstr buf) \<longrightarrow> http_status ovf buf = 0 \<and> snd (http_finish ovf buf) = 1) \<and>
   (CHR '' '' \<notin> set (cstr buf) \<longrightarrow> http_status ovf buf = 0 \<and> snd (http_finish ovf buf) = 1) \<and>
   (\<forall>v t. cstr buf = ''HTTP/'' @ v @ CHR '' '' # t \<and> CHR '' '' \<notin> set v \<longrightarrow>
      http_status ovf buf = atoi ovf t) \<and>
   (\<forall>v ds r. cstr buf = ''HTTP/'' @ v @ CHR '' '' # ds @ r \<and> CHR '' '' \<notin> set v \<and> ds \<noteq> [] \<and>
      list_all isdigit ds \<and> (r = [] \<or> \<not> isdigit (hd r)) \<and> int (digits_val ds) \<le> INT_MAX \<longrightarrow>
      http_status ovf buf = int (digits_val ds)) \<and>
   (\<forall>e port pq token req. socket_ok e \<and> connect_ok e (nat (port mod 65536)) \<and> malloc_ok e \<and>
      sent_request port pq token = Some req \<and> recv_loop (peer e req) [] = buf \<and> int_ovf e = ovf \<longrightarrow>
      map_option snd (http_get e port pq token) = Some (snd (http_finish ovf buf))) \<and>
   http_status ovf buf = stated_status ovf (cstr buf) \<and>
   (NUL \<notin> set buf \<longrightarrow> cstr buf = buf \<and> http_status ovf buf = stated_status ovf buf) \<and>
   (\<forall>a r. buf = a @ NUL # r \<and> NUL \<notin> set a \<longrightarrow>
      cstr buf = a \<and> http_status ovf buf = stated_status ovf a)"
proof -
  have a: "snd (http_finish ovf buf) = 0 \<longleftrightarrow> 200 \<le> http_status ovf buf \<and> http_status ovf buf < 300"
    by (simp add: http_finish_def exit_code_def)
  have b: "snd (http_finish ovf buf) = 0 \<or> snd (http_finish ovf buf) = 1"
    by (simp add: http_finish_def exit_code_def)
  have c: "http_status ovf buf = 0 \<and> snd (http_finish ovf buf) = 1"
    if "\<not> prefix ''HTTP/'' (cstr buf)"
    using http_status_no_prefix [OF that] by (simp add: http_finish_def exit_code_def)
  have d: "http_status ovf buf = 0 \<and> snd (http_finish ovf buf) = 1"
    if "CHR '' '' \<notin> set (cstr buf)"
    using http_status_no_space [OF that] by (simp add: http_finish_def exit_code_def)
  have f: "http_status ovf buf = atoi ovf t"
    if "cstr buf = ''HTTP/'' @ v @ CHR '' '' # t" "CHR '' '' \<notin> set v" for v t
    using that by (rule http_status_after_space)
  have g: "http_status ovf buf = int (digits_val ds)"
    if "cstr buf = ''HTTP/'' @ v @ CHR '' '' # ds @ r" "CHR '' '' \<notin> set v" "ds \<noteq> []"
      "list_all isdigit ds" "r = [] \<or> \<not> isdigit (hd r)" "int (digits_val ds) \<le> INT_MAX" for v ds r
  proof -
    have "http_status ovf buf = atoi ovf ([] @ ds @ r)" using f [OF that(1,2)] by simp
    also have "\<dots> = int (digits_val ds)" by (rule atoi_digits) (use that in simp_all)
    finally show ?thesis .
  qed
  have h: "map_option snd (http_get e port pq token) = Some (snd (http_finish ovf buf))"
    if "socket_ok e" "connect_ok e (nat (port mod 65536))" "malloc_ok e"
      "sent_request port pq token = Some req" "recv_loop (peer e req) [] = buf" "int_ovf e = ovf"
    for e port pq token req
    using http_get_reaches_finish [OF that(1-4)] that(5,6) by simp
  have i: "http_status ovf buf = stated_status ovf (cstr buf)"
    by (rule http_status_stated)
  have j: "cstr buf = buf \<and> http_status ovf buf = stated_status ovf buf" if "NUL \<notin> set buf"
    using i cstr_no_NUL [OF that] by simp
  have k: "cstr buf = a \<and> http_status ovf buf = stated_status ovf a"
    if "buf = a @ NUL # r \<and> NUL \<notin> set a" for a r
    using i cstr_first_NUL [of a r] that by simp
  show ?thesis using a b c d f g h i j k by blast
qed

theorem exit_code_by_status_witness:
  "cstr ok_response = ''HTTP/'' @ ''1.0'' @ CHR '' '' # ''200'' @ ('' OK'' @ CRLF @ CRLF @ ''{ok}'') \<and>
   CHR '' '' \<notin> set ''1.0'' \<and> ''200'' \<noteq> [] \<and> list_all isdigit ''200'' \<and>
   \<not> isdigit (hd ('' OK'' @ CRLF @ CRLF @ ''{ok}'')) \<and> int (digits_val ''200'') \<le> INT_MAX \<and>
   http_status id ok_response = 200 \<and> snd (http_finish id ok_response) = 0 \<and>
   \<not> prefix ''HTTP/'' (cstr ''garbage 200'') \<and> http_status id ''garbage 200'' = 0 \<and>
   snd (http_finish id ''garbage 200'') = 1 \<and>
   CHR '' '' \<notin> set (cstr ''HTTP/1.0'') \<and> snd (http_finish id ''HTTP/1.0'') = 1 \<and>
   socket_ok env0 \<and> connect_ok env0 (nat (7777 mod 65536)) \<and> malloc_ok env0 \<and>
   recv_loop (peer env0 (http_request 7777 ''/x'' [])) [] = ok_response \<and>
   map_option snd (http_get env0 7777 ''/x'' []) = Some 0"
proof -
  have n: "NUL \<notin> set ok_response" by (simp add: ok_response_def CRLF_def)
  have h1: "cstr ok_response =
      ''HTTP/'' @ ''1.0'' @ CHR '' '' # ''200'' @ ('' OK'' @ CRLF @ CRLF @ ''{ok}'')"
    by (simp add: cstr_no_NUL [OF n]) (simp add: ok_response_def)
  have h2: "CHR '' '' \<notin> set ''1.0''" by simp
  have h3: "''200'' \<noteq> []" by simp
  have h5: "\<not> isdigit (hd ('' OK'' @ CRLF @ CRLF @ ''{ok}''))" by (simp add: isdigit_def)
  have h6: "int (digits_val ''200'') \<le> INT_MAX" by (simp add: digits_200 INT_MAX_def)
  note T = exit_code_by_status [of id ok_response]
  from T have g: "\<forall>v ds r. cstr ok_response = ''HTTP/'' @ v @ CHR '' '' # ds @ r \<and>
      CHR '' '' \<notin> set v \<and> ds \<noteq> [] \<and> list_all isdigit ds \<and> (r = [] \<or> \<not> isdigit (hd r)) \<and>
      int (digits_val ds) \<le> INT_MAX \<longrightarrow> http_status id ok_response = int (digits_val ds)"
    by (elim conjE)
  have st: "http_status id ok_response = 200"
    using g [rule_format, of "''1.0''" "''200''" "'' OK'' @ CRLF @ CRLF @ ''{ok}''"]
      h1 h2 h3 isdigit_200 h5 h6 by (simp add: digits_200)
  from T have a: "snd (http_finish id ok_response) = 0 \<longleftrightarrow>
      200 \<le> http_status id ok_response \<and> http_status id ok_response < 300"
    by (elim conjE)
  have ex: "snd (http_finish id ok_response) = 0" using a st by simp
  have p: "\<not> prefix ''HTTP/'' (cstr ''garbage 200'')" by (simp add: cstr_def)
  note G = exit_code_by_status [of id "''garbage 200''"]
  from G p have gs: "http_status id ''garbage 200'' = 0 \<and> snd (http_finish id ''garbage 200'') = 1"
    by (elim conjE) (rule mp)
  have sp: "CHR '' '' \<notin> set (cstr ''HTTP/1.0'')" by (simp add: cstr_def)
  note H = exit_code_by_status [of id "''HTTP/1.0''"]
  from H sp have hs: "http_status id ''HTTP/1.0'' = 0 \<and> snd (http_finish id ''HTTP/1.0'') = 1"
    by (elim conjE) (rule mp)
  have e: "socket_ok env0" "connect_ok env0 (nat (7777 mod 65536))" "malloc_ok env0"
    by (simp_all add: env0_def)
  have l2: "length (http_request 7777 ''/x'' []) < REQ_SIZE"
    by (simp add: request_empty REQ_SIZE_def MAX_URL_LEN_def CRLF_def)
  have sr: "sent_request 7777 ''/x'' [] = Some (http_request 7777 ''/x'' [])"
    by (rule sent_request_fits [OF l2])
  have rl: "recv_loop (peer env0 (http_request 7777 ''/x'' [])) [] = ok_response"
    by (simp add: env0_def ok_response_def BUF_SIZE_def CRLF_def)
  have io: "int_ovf env0 = id" by (simp add: env0_def)
  from T have hg: "\<forall>e port pq token req. socket_ok e \<and> connect_ok e (nat (port mod 65536)) \<and>
      malloc_ok e \<and> sent_request port pq token = Some req \<and>
      recv_loop (peer e req) [] = ok_response \<and> int_ovf e = id \<longrightarrow>
      map_option snd (http_get e port pq token) = Some (snd (http_finish id ok_response))"
    by (elim conjE)
  have "map_option snd (http_get env0 7777 ''/x'' []) = Some (snd (http_finish id ok_response))"
    using hg [rule_format, of env0 7777 "''/x''" "[]" "http_request 7777 ''/x'' []"] e sr rl io
    by simp
  then have m: "map_option snd (http_get env0 7777 ''/x'' []) = Some 0" by (simp add: ex)
  show ?thesis
    using h1 h2 h3 isdigit_200 h5 h6 st ex p gs sp hs e rl m by (intro conjI) simp_all
qed

text \<open>
  Claim C5 as written speaks of the received buffer. A response with a NUL byte before its
  first space begins with \<open>HTTP/\<close> and has 200 after its first space, but the program
  reads it as the C string \<open>HTTP/1.0\<close>, which holds no space: the status is 0 and the exit
  code 1.
\<close>

theorem exit_code_nul_counterexample:
  "prefix ''HTTP/'' nul_status_response \<and>
   stated_status id nul_status_response = 200 \<and>
   exit_code (stated_status id nul_status_response) = 0 \<and>
   http_status id nul_status_response = 0 \<and>
   snd (http_finish id nul_status_response) = 1 \<and>
   recv_loop (peer env_nul_status (http_request 7777 ''/x'' [])) [] = nul_status_response \<and>
   map_option snd (http_get env_nul_status 7777 ''/x'' []) = Some 1"
proof -
  have p: "prefix ''HTTP/'' nul_status_response" by (simp add: nul_status_response_def)
  have "atoi id ([] @ ''200'' @ ('' OK'' @ CRLF @ CRLF)) = int (digits_val ''200'')"
    by (rule atoi_digits) (simp_all add: isdigit_def digits_200 INT_MAX_def)
  then have at: "atoi id (''200 OK'' @ CRLF @ CRLF) = 200" by (simp add: digits_200)
  have s: "stated_status id nul_status_response = 200"
    using at by (simp add: stated_status_def nul_status_response_def)
  have c: "cstr nul_status_response = ''HTTP/1.0''"
    using cstr_first_NUL [of "''HTTP/1.0''" "'' 200 OK'' @ CRLF @ CRLF"]
    by (simp add: nul_status_response_def)
  have h: "http_status id nul_status_response = 0"
    by (rule http_status_no_space) (simp add: c)
  have f: "snd (http_finish id nul_status_response) = 1"
    by (simp add: http_finish_def exit_code_def h)
  have e: "socket_ok env_nul_status" "connect_ok env_nul_status (nat (7777 mod 65536))"
    "malloc_ok env_nul_status" "int_ovf env_nul_status = id"
    by (simp_all add: env_nul_status_def)
  have l: "length (http_request 7777 ''/x'' []) < REQ_SIZE"
    by (simp add: request_empty REQ_SIZE_def MAX_URL_LEN_def CRLF_def)
  have sr: "sent_request 7777 ''/x'' [] = Some (http_request 7777 ''/x'' [])"
    by (rule sent_request_fits [OF l])
  have rl: "recv_loop (peer env_nul_status (http_request 7777 ''/x'' [])) [] =
      nul_status_response"
    by (simp add: env_nul_status_def nul_status_response_def BUF_SIZE_def CRLF_def)
  have g: "map_option snd (http_get env_nul_status 7777 ''/x'' []) = Some 1"
    using http_get_reaches_finish [OF e(1-3) sr] by (simp add: e(4) rl f)
  show ?thesis using p s h f rl g by (simp add: exit_code_def)
qed

text \<open>
  Claim C6, as the code has it. The only output to standard output is the body and a
  newline. The response is read as a C string, up to its first NUL byte: the body is
  what follows the first CR LF CR LF in it, or all of it when it has none.
\<close>

theorem printed_body:
  "fst (http_finish ovf buf) = [Stdout (response_body buf @ [LF])] \<and>
   (\<forall>h b. cstr buf = h @ CRLF @ CRLF @ b \<and> \<not> sublist (CRLF @ CRLF) (h @ [CR, LF, CR]) \<longrightarrow>
      response_body buf = b) \<and>
   (\<not> sublist (CRLF @ CRLF) (cstr buf) \<longrightarrow> response_body buf = cstr buf) \<and>
   (NUL \<notin> set buf \<longrightarrow> cstr buf = buf) \<and>
   (\<forall>a r. buf = a @ NUL # r \<and> NUL \<notin> set a \<longrightarrow> cstr buf = a) \<and>
   (\<forall>e port pq token req. socket_ok e \<and> connect_ok e (nat (port mod 65536)) \<and> malloc_ok e \<and>
      sent_request port pq token = Some req \<and> recv_loop (peer e req) [] = buf \<longrightarrow>
      (\<exists>evs code. http_get e port pq token = Some (evs, code) \<and>
         filter (\<lambda>ev. case ev of Stdout _ \<Rightarrow> True | _ \<Rightarrow> False) evs =
           [Stdout (response_body buf @ [LF])]))"
proof -
  have a: "fst (http_finish ovf buf) = [Stdout (response_body buf @ [LF])]"
    by (simp add: http_finish_def)
  have b: "response_body buf = b"
    if "cstr buf = h @ CRLF @ CRLF @ b" "\<not> sublist (CRLF @ CRLF) (h @ [CR, LF, CR])" for h b
    using that by (rule response_body_split)
  have c: "response_body buf = cstr buf" if "\<not> sublist (CRLF @ CRLF) (cstr buf)"
    using that by (rule response_body_whole)
  have d: "cstr buf = buf" if "NUL \<notin> set buf"
    using that by (rule cstr_no_NUL)
  have f: "cstr buf = a" if "buf = a @ NUL # r" "NUL \<notin> set a" for a r
    using cstr_first_NUL [OF that(2)] that(1) by simp
  have g: "\<exists>evs code. http_get e port pq token = Some (evs, code) \<and>
         filter (\<lambda>ev. case ev of Stdout _ \<Rightarrow> True | _ \<Rightarrow> False) evs =
           [Stdout (response_body buf @ [LF])]"
    if "socket_ok e" "connect_ok e (nat (port mod 65536))" "malloc_ok e"
      "sent_request port pq token = Some req" "recv_loop (peer e req) [] = buf"
    for e port pq token req
    using http_get_stdout [OF that(1-4)] that(5) by simp
  show ?thesis using a b c d f g by blast
qed

theorem printed_body_witness:
  "cstr ok_response = ''HTTP/1.0 200 OK'' @ CRLF @ CRLF @ ''{ok}'' \<and>
   \<not> sublist (CRLF @ CRLF) (''HTTP/1.0 200 OK'' @ [CR, LF, CR]) \<and>
   fst (http_finish id ok_response) = [Stdout (''{ok}'' @ [LF])] \<and>
   \<not> sublist (CRLF @ CRLF) (cstr ''garbage 200'') \<and>
   fst (http_finish id ''garbage 200'') = [Stdout (''garbage 200'' @ [LF])] \<and>
   NUL \<notin> set ''garbage 200'' \<and> cstr ''garbage 200'' = ''garbage 200'' \<and>
   nul_response = (''HTTP/1.0 200 OK'' @ CRLF @ CRLF @ ''ab'') @ NUL # ''cd'' \<and>
   NUL \<notin> set (''HTTP/1.0 200 OK'' @ CRLF @ CRLF @ ''ab'') \<and>
   cstr nul_response = ''HTTP/1.0 200 OK'' @ CRLF @ CRLF @ ''ab'' \<and>
   socket_ok env0 \<and> connect_ok env0 (nat (7777 mod 65536)) \<and> malloc_ok env0 \<and>
   sent_request 7777 ''/x'' [] = Some (http_request 7777 ''/x'' []) \<and>
   recv_loop (peer env0 (http_request 7777 ''/x'' [])) [] = ok_response \<and>
   (\<exists>evs code. http_get env0 7777 ''/x'' [] = Some (evs, code) \<and>
      filter (\<lambda>ev. case ev of Stdout _ \<Rightarrow> True | _ \<Rightarrow> False) evs = [Stdout (''{ok}'' @ [LF])])"
proof -
  note T = printed_body [of id ok_response]
  have n: "NUL \<notin> set ok_response" by (simp add: ok_response_def CRLF_def)
  from T n have c0: "cstr ok_response = ok_response" by (elim conjE) (rule mp)
  then have h1: "cstr ok_response = ''HTTP/1.0 200 OK'' @ CRLF @ CRLF @ ''{ok}''"
    by (simp add: ok_response_def)
  have h2: "\<not> sublist (CRLF @ CRLF) (''HTTP/1.0 200 OK'' @ [CR, LF, CR])"
    by (simp add: CRLF_def sublist_Cons_right)
  from T have b: "\<forall>h b. cstr ok_response = h @ CRLF @ CRLF @ b \<and>
      \<not> sublist (CRLF @ CRLF) (h @ [CR, LF, CR]) \<longrightarrow> response_body ok_response = b"
    by (elim conjE)
  have rb: "response_body ok_response = ''{ok}''"
    using b [rule_format, of "''HTTP/1.0 200 OK''" "''{ok}''"] h1 h2 by simp
  from T have "fst (http_finish id ok_response) = [Stdout (response_body ok_response @ [LF])]"
    by (elim conjE)
  then have o1: "fst (http_finish id ok_response) = [Stdout (''{ok}'' @ [LF])]"
    by (simp add: rb)
  note G = printed_body [of id "''garbage 200''"]
  have g1: "NUL \<notin> set ''garbage 200''" by simp
  from G g1 have g2: "cstr ''garbage 200'' = ''garbage 200''" by (elim conjE) (rule mp)
  have g3: "\<not> sublist (CRLF @ CRLF) (cstr ''garbage 200'')"
    by (simp add: g2 CRLF_def sublist_Cons_right)
  from G g3 have "response_body ''garbage 200'' = cstr ''garbage 200''"
    by (elim conjE) (rule mp)
  moreover from G have "fst (http_finish id ''garbage 200'') =
      [Stdout (response_body ''garbage 200'' @ [LF])]" by (elim conjE)
  ultimately have o2: "fst (http_finish id ''garbage 200'') = [Stdout (''garbage 200'' @ [LF])]"
    by (simp add: g2)
  note N = printed_body [of id nul_response]
  have n1: "nul_response = (''HTTP/1.0 200 OK'' @ CRLF @ CRLF @ ''ab'') @ NUL # ''cd''"
    by (simp add: nul_response_def)
  have n2: "NUL \<notin> set (''HTTP/1.0 200 OK'' @ CRLF @ CRLF @ ''ab'')" by (simp add: CRLF_def)
  from N have f: "\<forall>a r. nul_response = a @ NUL # r \<and> NUL \<notin> set a \<longrightarrow> cstr nul_response = a"
    by (elim conjE)
  have n3: "cstr nul_response = ''HTTP/1.0 200 OK'' @ CRLF @ CRLF @ ''ab''"
    using f [rule_format, of "''HTTP/1.0 200 OK'' @ CRLF @ CRLF @ ''ab''" "''cd''"] n1 n2
    by blast
  have e: "socket_ok env0" "connect_ok env0 (nat (7777 mod 65536))" "malloc_ok env0"
    by (simp_all add: env0_def)
  have l2: "length (http_request 7777 ''/x'' []) < REQ_SIZE"
    by (simp add: request_empty REQ_SIZE_def MAX_URL_LEN_def CRLF_def)
  have sr: "sent_request 7777 ''/x'' [] = Some (http_request 7777 ''/x'' [])"
    by (rule sent_request_fits [OF l2])
  have rl: "recv_loop (peer env0 (http_request 7777 ''/x'' [])) [] = ok_response"
    by (simp add: env0_def ok_response_def BUF_SIZE_def CRLF_def)
  from T have hg: "\<forall>e port pq token req. socket_ok e \<and> connect_ok e (nat (port mod 65536)) \<and>
      malloc_ok e \<and> sent_request port pq token = Some req \<and>
      recv_loop (peer e req) [] = ok_response \<longrightarrow>
      (\<exists>evs code. http_get e port pq token = Some (evs, code) \<and>
         filter (\<lambda>ev. case ev of Stdout _ \<Rightarrow> True | _ \<Rightarrow> False) evs =
           [Stdout (response_body ok_response @ [LF])])"
    by (elim conjE)
  have hyp: "socket_ok env0 \<and> connect_ok env0 (nat (7777 mod 65536)) \<and> malloc_ok env0 \<and>
      sent_request 7777 ''/x'' [] = Some (http_request 7777 ''/x'' []) \<and>
      recv_loop (peer env0 (http_request 7777 ''/x'' [])) [] = ok_response"
    using e sr rl by (intro conjI)
  have m: "\<exists>evs code. http_get env0 7777 ''/x'' [] = Some (evs, code) \<and>
      filter (\<lambda>ev. case ev of Stdout _ \<Rightarrow> True | _ \<Rightarrow> False) evs = [Stdout (''{ok}'' @ [LF])]"
    using hg [rule_format, OF hyp] by (simp only: rb)
  show ?thesis
    using h1 h2 o1 g3 o2 g1 g2 n1 n2 n3 e sr rl m by (intro conjI)
qed

text \<open>
  A body with a NUL byte is not written verbatim: \<open>printf("%s")\<close> stops at the NUL.
\<close>

theorem printed_body_nul_counterexample:
  "fst (http_finish id (''HTTP/1.0 200 OK'' @ CRLF @ CRLF @ ''ab'' @ [NUL] @ ''cd'')) =
     [Stdout (''ab'' @ [LF])] \<and>
   [Stdout (''ab'' @ [LF])] \<noteq> [Stdout (''ab'' @ [NUL] @ ''cd'' @ [LF])]"
proof -
  have "response_body (''HTTP/1.0 200 OK'' @ CRLF @ CRLF @ ''ab'' @ [NUL] @ ''cd'') = ''ab''"
    by (rule response_body_split [of _ "''HTTP/1.0 200 OK''"])
       (simp_all add: cstr_def CRLF_def sublist_Cons_right)
  then show ?thesis by (simp add: http_finish_def)
qed

section \<open>ConfigResolver: the claims\<close>

text \<open>
  Claim C1, as the code has it, for a root whose paths fit the path buffer. If
  \<open><root>/run/server.json\<close> can be opened, the port comes from it alone: its first 511
  bytes, read as a C string (up to the first NUL byte), are searched for \<open>"port"\<close>, or for
  \<open>'port'\<close> when that is not there, then for the first colon after the key, and the port is
  \<open>atoi\<close> of what follows the colon; without key or colon the port is 7777 and
  \<open>config.yaml\<close> is not read. Only if \<open>server.json\<close> cannot be opened is
  \<open><root>/config.yaml\<close> read, piece by piece as \<open>fgets\<close> into 256 bytes delivers it: a piece
  is a line with its newline when the line is shorter than 255 bytes, the rest of the file
  when that has no newline and at most 255 bytes, and the next 255 bytes otherwise, so that
  a longer line is read in several pieces. Each piece is read as a C string: a piece that
  does not open with \<open>port:\<close>, or has neither digit nor sign after \<open>port:\<close> and the white
  space behind it, is passed over, and a piece \<open>port:\<close>, white space, digits gives the number
  of these digits as the port; without the file, or when the pieces run out, the port is
  7777. A run of digits that fits an \<open>int\<close> is read as its value.
\<close>

theorem read_port_layers:
  assumes "length root + 16 < MAX_PATH_LEN"
  shows
  "(fs (root @ ''/run/server.json'') = None \<and> fs (root @ ''/config.yaml'') = None \<longrightarrow>
      read_port ovf fs root = 7777) \<and>
   (\<forall>y. fs (root @ ''/run/server.json'') = None \<and> fs (root @ ''/config.yaml'') = Some y \<longrightarrow>
      read_port ovf fs root = yaml_scan ovf y) \<and>
   (\<forall>j. fs (root @ ''/run/server.json'') = Some j \<and>
      \<not> sublist (DQUOTE # ''port'' @ [DQUOTE]) (cstr (take 511 j)) \<and>
      \<not> sublist (SQUOTE # ''port'' @ [SQUOTE]) (cstr (take 511 j)) \<longrightarrow>
      read_port ovf fs root = 7777) \<and>
   (\<forall>j pre mid t. fs (root @ ''/run/server.json'') = Some j \<and>
      cstr (take 511 j) = pre @ (DQUOTE # ''port'' @ [DQUOTE]) @ mid @ CHR '':'' # t \<and>
      \<not> sublist (DQUOTE # ''port'' @ [DQUOTE]) (pre @ DQUOTE # ''port'') \<and>
      CHR '':'' \<notin> set mid \<longrightarrow>
      read_port ovf fs root = atoi ovf t) \<and>
   (\<forall>j pre mid t. fs (root @ ''/run/server.json'') = Some j \<and>
      cstr (take 511 j) = pre @ (SQUOTE # ''port'' @ [SQUOTE]) @ mid @ CHR '':'' # t \<and>
      \<not> sublist (DQUOTE # ''port'' @ [DQUOTE]) (cstr (take 511 j)) \<and>
      \<not> sublist (SQUOTE # ''port'' @ [SQUOTE]) (pre @ SQUOTE # ''port'') \<and>
      CHR '':'' \<notin> set mid \<longrightarrow>
      read_port ovf fs root = atoi ovf t) \<and>
   (\<forall>j pre r. fs (root @ ''/run/server.json'') = Some j \<and>
      cstr (take 511 j) = pre @ (DQUOTE # ''port'' @ [DQUOTE]) @ r \<and>
      \<not> sublist (DQUOTE # ''port'' @ [DQUOTE]) (pre @ DQUOTE # ''port'') \<and>
      CHR '':'' \<notin> set r \<longrightarrow>
      read_port ovf fs root = 7777) \<and>
   yaml_scan ovf [] = 7777 \<and>
   (\<forall>body rest. LF \<notin> set body \<and> length body < 255 \<longrightarrow>
      yaml_scan ovf (body @ LF # rest) =
        (case sscanf_port ovf (cstr (body @ [LF])) of
           Some p \<Rightarrow> p | None \<Rightarrow> yaml_scan ovf rest)) \<and>
   (\<forall>body. LF \<notin> set body \<and> body \<noteq> [] \<and> length body \<le> 255 \<longrightarrow>
      yaml_scan ovf body = (case sscanf_port ovf (cstr body) of Some p \<Rightarrow> p | None \<Rightarrow> 7777)) \<and>
   (\<forall>l. \<not> prefix ''port:'' l \<longrightarrow> sscanf_port ovf l = None) \<and>
   (\<forall>ws ds r. list_all isspace ws \<and> ds \<noteq> [] \<and> list_all isdigit ds \<and>
      (r = [] \<or> \<not> isdigit (hd r)) \<and> int (digits_val ds) \<le> INT_MAX \<longrightarrow>
      sscanf_port ovf (''port:'' @ ws @ ds @ r) = Some (int (digits_val ds)) \<and>
      atoi ovf (ws @ ds @ r) = int (digits_val ds)) \<and>
   (\<forall>j pre r. fs (root @ ''/run/server.json'') = Some j \<and>
      cstr (take 511 j) = pre @ (SQUOTE # ''port'' @ [SQUOTE]) @ r \<and>
      \<not> sublist (DQUOTE # ''port'' @ [DQUOTE]) (cstr (take 511 j)) \<and>
      \<not> sublist (SQUOTE # ''port'' @ [SQUOTE]) (pre @ SQUOTE # ''port'') \<and>
      CHR '':'' \<notin> set r \<longrightarrow>
      read_port ovf fs root = 7777) \<and>
   (\<forall>s. LF \<notin> set (take 255 s) \<and> 255 \<le> length s \<longrightarrow>
      yaml_scan ovf s =
        (case sscanf_port ovf (cstr (take 255 s)) of
           Some p \<Rightarrow> p | None \<Rightarrow> yaml_scan ovf (drop 255 s))) \<and>
   (\<forall>s. NUL \<notin> set s \<longrightarrow> cstr s = s) \<and>
   (\<forall>s r. NUL \<notin> set s \<longrightarrow> cstr (s @ NUL # r) = s) \<and>
   (\<forall>ws r. list_all isspace ws \<and>
      (r = [] \<or> \<not> (isdigit (hd r) \<or> isspace (hd r) \<or> hd r = CHR ''-'' \<or> hd r = CHR ''+'')) \<longrightarrow>
      sscanf_port ovf (''port:'' @ ws @ r) = None)"
proof -
  let ?J = "fs (root @ ''/run/server.json'')"
  let ?dq = "DQUOTE # ''port'' @ [DQUOTE]"
  let ?sq = "SQUOTE # ''port'' @ [SQUOTE]"
  have c1: "read_port ovf fs root = 7777"
    if "?J = None \<and> fs (root @ ''/config.yaml'') = None"
    using read_port_no_json [OF assms, of fs ovf] that by simp
  have c2: "read_port ovf fs root = yaml_scan ovf y"
    if "?J = None \<and> fs (root @ ''/config.yaml'') = Some y" for y
    using read_port_no_json [OF assms, of fs ovf] that by simp
  have c3: "read_port ovf fs root = 7777"
    if "?J = Some j \<and> \<not> sublist ?dq (cstr (take 511 j)) \<and> \<not> sublist ?sq (cstr (take 511 j))"
    for j
  proof -
    from that have "port_key (cstr (take 511 j)) = None" by (simp add: port_key_none)
    with that read_port_json [OF assms, of fs j ovf] show ?thesis by simp
  qed
  have c4: "read_port ovf fs root = atoi ovf t"
    if h: "?J = Some j \<and> cstr (take 511 j) = pre @ ?dq @ mid @ CHR '':'' # t \<and>
      \<not> sublist ?dq (pre @ DQUOTE # ''port'') \<and> CHR '':'' \<notin> set mid" for j pre mid t
  proof -
    from h have n: "\<not> sublist ?dq (pre @ DQUOTE # ''port'')"
      and m: "CHR '':'' \<notin> set mid" by simp_all
    have "port_key (pre @ ?dq @ (mid @ CHR '':'' # t)) = Some (?dq @ (mid @ CHR '':'' # t))"
      using n by (rule port_key_dq)
    moreover have "strchr (?dq @ (mid @ CHR '':'' # t)) (CHR '':'') = Some (CHR '':'' # t)"
      using strchr_first [OF m, of t] by (simp only: strchr_after_key_dq)
    ultimately show ?thesis
      using h read_port_json [OF assms, of fs j ovf] by simp
  qed
  have c5: "read_port ovf fs root = atoi ovf t"
    if h: "?J = Some j \<and> cstr (take 511 j) = pre @ ?sq @ mid @ CHR '':'' # t \<and>
      \<not> sublist ?dq (cstr (take 511 j)) \<and>
      \<not> sublist ?sq (pre @ SQUOTE # ''port'') \<and> CHR '':'' \<notin> set mid" for j pre mid t
  proof -
    from h have e: "cstr (take 511 j) = pre @ ?sq @ (mid @ CHR '':'' # t)"
      and n: "\<not> sublist ?sq (pre @ SQUOTE # ''port'')"
      and m: "CHR '':'' \<notin> set mid" by simp_all
    from h have d0: "\<not> sublist ?dq (cstr (take 511 j))" by blast
    have d: "\<not> sublist ?dq (pre @ ?sq @ (mid @ CHR '':'' # t))"
      using d0 unfolding e .
    have "port_key (pre @ ?sq @ (mid @ CHR '':'' # t)) = Some (?sq @ (mid @ CHR '':'' # t))"
      using d n by (rule port_key_sq)
    moreover have "strchr (?sq @ (mid @ CHR '':'' # t)) (CHR '':'') = Some (CHR '':'' # t)"
      using strchr_first [OF m, of t] by (simp only: strchr_after_key_sq)
    ultimately show ?thesis
      using h read_port_json [OF assms, of fs j ovf] by (simp add: e)
  qed
  have c6: "read_port ovf fs root = 7777"
    if h: "?J = Some j \<and> cstr (take 511 j) = pre @ ?dq @ r \<and>
      \<not> sublist ?dq (pre @ DQUOTE # ''port'') \<and> CHR '':'' \<notin> set r" for j pre r
  proof -
    from h have n: "\<not> sublist ?dq (pre @ DQUOTE # ''port'')"
      and m: "CHR '':'' \<notin> set r" by simp_all
    have "port_key (pre @ ?dq @ r) = Some (?dq @ r)"
      using n by (rule port_key_dq)
    moreover have "strchr (?dq @ r) (CHR '':'') = None"
      using strchr_None [OF m] by (simp only: strchr_after_key_dq)
    ultimately show ?thesis
      using h read_port_json [OF assms, of fs j ovf] by simp
  qed
  have c7: "yaml_scan ovf [] = 7777" by (rule yaml_scan_empty)
  have c8: "yaml_scan ovf (body @ LF # rest) =
        (case sscanf_port ovf (cstr (body @ [LF])) of
           Some p \<Rightarrow> p | None \<Rightarrow> yaml_scan ovf rest)"
    if "LF \<notin> set body \<and> length body < 255" for body rest
    using yaml_scan_line [of body ovf rest] that by simp
  have c9: "yaml_scan ovf body =
        (case sscanf_port ovf (cstr body) of Some p \<Rightarrow> p | None \<Rightarrow> 7777)"
    if "LF \<notin> set body \<and> body \<noteq> [] \<and> length body \<le> 255" for body
    using yaml_scan_last [of body ovf] that by simp
  have c12: "read_port ovf fs root = 7777"
    if h: "?J = Some j \<and> cstr (take 511 j) = pre @ ?sq @ r \<and>
      \<not> sublist ?dq (cstr (take 511 j)) \<and>
      \<not> sublist ?sq (pre @ SQUOTE # ''port'') \<and> CHR '':'' \<notin> set r" for j pre r
  proof -
    from h have e: "cstr (take 511 j) = pre @ ?sq @ r"
      and n: "\<not> sublist ?sq (pre @ SQUOTE # ''port'')"
      and m: "CHR '':'' \<notin> set r" by simp_all
    from h have d0: "\<not> sublist ?dq (cstr (take 511 j))" by blast
    have d: "\<not> sublist ?dq (pre @ ?sq @ r)" using d0 unfolding e .
    have "port_key (pre @ ?sq @ r) = Some (?sq @ r)"
      using d n by (rule port_key_sq)
    moreover have "strchr (?sq @ r) (CHR '':'') = None"
      using strchr_None [OF m] by (simp only: strchr_after_key_sq)
    ultimately show ?thesis
      using h read_port_json [OF assms, of fs j ovf] by (simp add: e)
  qed
  have c13: "yaml_scan ovf s =
        (case sscanf_port ovf (cstr (take 255 s)) of
           Some p \<Rightarrow> p | None \<Rightarrow> yaml_scan ovf (drop 255 s))"
    if "LF \<notin> set (take 255 s) \<and> 255 \<le> length s" for s
    using yaml_scan_long [of s ovf] that by simp
  have c14: "cstr s = s" if "NUL \<notin> set s" for s
    using that by (rule cstr_no_NUL)
  have c15: "cstr (s @ NUL # r) = s" if "NUL \<notin> set s" for s r
    using that by (rule cstr_first_NUL)
  have c16: "sscanf_port ovf (''port:'' @ ws @ r) = None"
    if "list_all isspace ws \<and>
      (r = [] \<or> \<not> (isdigit (hd r) \<or> isspace (hd r) \<or> hd r = CHR ''-'' \<or> hd r = CHR ''+''))"
    for ws r
  proof -
    from that have a: "list_all isspace ws" by (rule conjunct1)
    from that have b: "r = [] \<or>
        \<not> (isdigit (hd r) \<or> isspace (hd r) \<or> hd r = CHR ''-'' \<or> hd r = CHR ''+'')"
      by (rule conjunct2)
    from a b show ?thesis by (rule sscanf_port_no_number)
  qed
  have c10: "sscanf_port ovf l = None" if "\<not> prefix ''port:'' l" for l
    using that by (rule sscanf_port_no_prefix)
  have c11: "sscanf_port ovf (''port:'' @ ws @ ds @ r) = Some (int (digits_val ds)) \<and>
      atoi ovf (ws @ ds @ r) = int (digits_val ds)"
    if "list_all isspace ws \<and> ds \<noteq> [] \<and> list_all isdigit ds \<and>
      (r = [] \<or> \<not> isdigit (hd r)) \<and> int (digits_val ds) \<le> INT_MAX" for ws ds r
    using that sscanf_port_digits [of ws ds r ovf] atoi_digits [of ws ds r ovf] by blast
  show ?thesis
    by (intro conjI allI impI;
        (erule c1 c2 c3 c4 c5 c6 c8 c9 c10 c11 [THEN conjunct1] c11 [THEN conjunct2] c12 c13
           c14 c15 c16 | rule c7))
qed

theorem read_port_layers_witness:
  "length ''/r'' + 16 < MAX_PATH_LEN \<and>
   fs_config None None (''/r'' @ ''/run/server.json'') = None \<and>
   fs_config None None (''/r'' @ ''/config.yaml'') = None \<and>
   read_port id (fs_config None None) ''/r'' = 7777 \<and>
   fs_config None (Some yaml_port) (''/r'' @ ''/config.yaml'') = Some yaml_port \<and>
   read_port id (fs_config None (Some yaml_port)) ''/r'' = 4242 \<and>
   fs_config (Some ''{}'') (Some yaml_port) (''/r'' @ ''/run/server.json'') = Some ''{}'' \<and>
   read_port id (fs_config (Some ''{}'') (Some yaml_port)) ''/r'' = 7777 \<and>
   cstr (take 511 json_dq) = ''{'' @ (DQUOTE # ''port'' @ [DQUOTE]) @ [] @ CHR '':'' # '' 9999}'' \<and>
   read_port id (fs_config (Some json_dq) (Some yaml_port)) ''/r'' = 9999 \<and>
   cstr (take 511 json_sq) = ''{'' @ (SQUOTE # ''port'' @ [SQUOTE]) @ [] @ CHR '':'' # '' 9999}'' \<and>
   read_port id (fs_config (Some json_sq) None) ''/r'' = 9999 \<and>
   cstr (take 511 json_no_colon) = ''{'' @ (DQUOTE # ''port'' @ [DQUOTE]) @ '' 9999}'' \<and>
   read_port id (fs_config (Some json_no_colon) None) ''/r'' = 7777 \<and>
   yaml_scan id [] = 7777 \<and>
   yaml_scan id ''port:4242'' = 4242 \<and>
   sscanf_port id (''  port: 1'') = None \<and>
   cstr (take 511 json_sq_no_colon) = ''{'' @ (SQUOTE # ''port'' @ [SQUOTE]) @ '' 9999}'' \<and>
   read_port id (fs_config (Some json_sq_no_colon) (Some yaml_port)) ''/r'' = 7777 \<and>
   LF \<notin> set (take 255 long_yaml) \<and> 255 \<le> length long_yaml \<and>
   yaml_scan id long_yaml = 4242 \<and>
   read_port id (fs_config None (Some long_yaml)) ''/r'' = 4242 \<and>
   sscanf_port id ''port: abc'' = None"
proof -
  let ?dq = "DQUOTE # ''port'' @ [DQUOTE]"
  let ?sq = "SQUOTE # ''port'' @ [SQUOTE]"
  have h0: "length ''/r'' + 16 < MAX_PATH_LEN" by (simp add: MAX_PATH_LEN_def)
  \<comment> \<open>neither file\<close>
  note A = read_port_layers [OF h0, of "fs_config None None" id]
  have a1: "fs_config None None (''/r'' @ ''/run/server.json'') = None"
    and a2: "fs_config None None (''/r'' @ ''/config.yaml'') = None"
    by (simp_all only: fs_config_simps)
  have a3: "read_port id (fs_config None None) ''/r'' = 7777"
    by (rule A [THEN conjunct1, THEN mp]) (intro conjI a1 a2)
  \<comment> \<open>only \<open>config.yaml\<close>\<close>
  note B = read_port_layers [OF h0, of "fs_config None (Some yaml_port)" id]
  have b1: "fs_config None (Some yaml_port) (''/r'' @ ''/run/server.json'') = None"
    and b2: "fs_config None (Some yaml_port) (''/r'' @ ''/config.yaml'') = Some yaml_port"
    by (simp_all only: fs_config_simps)
  have b3: "read_port id (fs_config None (Some yaml_port)) ''/r'' = yaml_scan id yaml_port"
    by (rule B [THEN conjunct2, THEN conjunct1, rule_format, of yaml_port]) (intro conjI b1 b2)
  note line = B [THEN conjunct2, THEN conjunct2, THEN conjunct2, THEN conjunct2, THEN conjunct2,
    THEN conjunct2, THEN conjunct2, THEN conjunct1, rule_format]
  note last_line = B [THEN conjunct2, THEN conjunct2, THEN conjunct2, THEN conjunct2,
    THEN conjunct2, THEN conjunct2, THEN conjunct2, THEN conjunct2, THEN conjunct1, rule_format]
  note no_prefix = B [THEN conjunct2, THEN conjunct2, THEN conjunct2, THEN conjunct2,
    THEN conjunct2, THEN conjunct2, THEN conjunct2, THEN conjunct2, THEN conjunct2,
    THEN conjunct1, rule_format]
  note digits = B [THEN conjunct2, THEN conjunct2, THEN conjunct2, THEN conjunct2,
    THEN conjunct2, THEN conjunct2, THEN conjunct2, THEN conjunct2, THEN conjunct2,
    THEN conjunct2, THEN conjunct1, rule_format]
  note long_line = B [THEN conjunct2, THEN conjunct2, THEN conjunct2, THEN conjunct2,
    THEN conjunct2, THEN conjunct2, THEN conjunct2, THEN conjunct2, THEN conjunct2,
    THEN conjunct2, THEN conjunct2, THEN conjunct2, THEN conjunct1, rule_format]
  have l1: "yaml_scan id (''host: x'' @ LF # ''port: 4242'' @ [LF]) =
      (case sscanf_port id (cstr (''host: x'' @ [LF])) of Some p \<Rightarrow> p
       | None \<Rightarrow> yaml_scan id (''port: 4242'' @ [LF]))"
    by (rule line) simp
  have l2: "sscanf_port id (cstr (''host: x'' @ [LF])) = None"
    by (rule no_prefix) (simp add: cstr_def)
  have l3: "yaml_scan id (''port: 4242'' @ LF # []) =
      (case sscanf_port id (cstr (''port: 4242'' @ [LF])) of
         Some p \<Rightarrow> p | None \<Rightarrow> yaml_scan id [])"
    by (rule line) simp
  have k1: "cstr (''port: 4242'' @ [LF]) = ''port:'' @ '' '' @ ''4242'' @ [LF]"
    by (simp add: cstr_def)
  have k2: "cstr ''port:4242'' = ''port:'' @ [] @ ''4242'' @ []"
    by (simp add: cstr_def)
  have d1: "list_all isspace '' '' \<and> ''4242'' \<noteq> [] \<and> list_all isdigit ''4242'' \<and>
      ([LF] = [] \<or> \<not> isdigit (hd [LF])) \<and> int (digits_val ''4242'') \<le> INT_MAX"
    by (simp add: isspace_def isdigit_def digits_4242 INT_MAX_def)
  have l4: "sscanf_port id (''port:'' @ '' '' @ ''4242'' @ [LF]) = Some (int (digits_val ''4242''))"
    by (rule digits [THEN conjunct1, OF d1])
  have l3': "yaml_scan id (''port: 4242'' @ [LF]) = 4242"
    using l3 l4 by (simp only: k1 option.case digits_4242; simp)
  have b4: "yaml_scan id yaml_port = 4242"
    using l1 l2 l3' by (simp add: yaml_port_def)
  have b5: "read_port id (fs_config None (Some yaml_port)) ''/r'' = 4242"
    using b3 b4 by simp
  have d2: "list_all isspace [] \<and> ''4242'' \<noteq> [] \<and> list_all isdigit ''4242'' \<and>
      (([] :: string) = [] \<or> \<not> isdigit (hd [])) \<and> int (digits_val ''4242'') \<le> INT_MAX"
    by (simp add: isdigit_def digits_4242 INT_MAX_def)
  have l5: "sscanf_port id (''port:'' @ [] @ ''4242'' @ []) = Some (int (digits_val ''4242''))"
    by (rule digits [THEN conjunct1, OF d2])
  have l6: "yaml_scan id ''port:4242'' =
      (case sscanf_port id (cstr ''port:4242'') of Some p \<Rightarrow> p | None \<Rightarrow> 7777)"
    by (rule last_line) simp
  have b6: "yaml_scan id ''port:4242'' = 4242"
    using l6 l5 by (simp only: k2 option.case digits_4242; simp)
  have b7: "sscanf_port id (''  port: 1'') = None"
    by (rule no_prefix) simp
  have b8: "yaml_scan id [] = 7777"
    by (rule B [THEN conjunct2, THEN conjunct2, THEN conjunct2, THEN conjunct2, THEN conjunct2,
      THEN conjunct2, THEN conjunct1])
  \<comment> \<open>\<open>server.json\<close> without the key: \<open>config.yaml\<close> is not read\<close>
  note C = read_port_layers [OF h0, of "fs_config (Some ''{}'') (Some yaml_port)" id]
  have c1: "fs_config (Some ''{}'') (Some yaml_port) (''/r'' @ ''/run/server.json'') = Some ''{}''"
    by (simp only: fs_config_simps)
  have c2: "\<not> sublist ?dq (cstr (take 511 ''{}''))" "\<not> sublist ?sq (cstr (take 511 ''{}''))"
    by (simp_all add: cstr_def sublist_Cons_right)
  have c3: "read_port id (fs_config (Some ''{}'') (Some yaml_port)) ''/r'' = 7777"
    by (rule C [THEN conjunct2, THEN conjunct2, THEN conjunct1, rule_format, of "''{}''"])
       (intro conjI c1 c2)
  \<comment> \<open>the key in double quotes\<close>
  note D = read_port_layers [OF h0, of "fs_config (Some json_dq) (Some yaml_port)" id]
  have e1: "fs_config (Some json_dq) (Some yaml_port) (''/r'' @ ''/run/server.json'') = Some json_dq"
    by (simp only: fs_config_simps)
  have e2: "cstr (take 511 json_dq) = ''{'' @ ?dq @ [] @ CHR '':'' # '' 9999}''"
    by (simp add: json_dq_def cstr_def)
  have e3: "\<not> sublist ?dq (''{'' @ DQUOTE # ''port'')" by (simp add: sublist_Cons_right)
  have e4: "CHR '':'' \<notin> set ([] :: string)" by simp
  have e5: "read_port id (fs_config (Some json_dq) (Some yaml_port)) ''/r'' = atoi id '' 9999}''"
    by (rule D [THEN conjunct2, THEN conjunct2, THEN conjunct2, THEN conjunct1, rule_format,
      of json_dq "''{''" "[]" "'' 9999}''"]) (intro conjI e1 e2 e3 e4)
  have d3: "list_all isspace '' '' \<and> ''9999'' \<noteq> [] \<and> list_all isdigit ''9999'' \<and>
      (''}'' = [] \<or> \<not> isdigit (hd ''}'')) \<and> int (digits_val ''9999'') \<le> INT_MAX"
    by (simp add: isspace_def isdigit_def digits_9999 INT_MAX_def)
  have e6: "atoi id ('' '' @ ''9999'' @ ''}'') = int (digits_val ''9999'')"
    by (rule digits [THEN conjunct2, OF d3])
  have e7: "read_port id (fs_config (Some json_dq) (Some yaml_port)) ''/r'' = 9999"
    using e5 e6 by (simp add: digits_9999)
  \<comment> \<open>the key in single quotes\<close>
  note E = read_port_layers [OF h0, of "fs_config (Some json_sq) None" id]
  have f1: "fs_config (Some json_sq) None (''/r'' @ ''/run/server.json'') = Some json_sq"
    by (simp only: fs_config_simps)
  have f2: "cstr (take 511 json_sq) = ''{'' @ ?sq @ [] @ CHR '':'' # '' 9999}''"
    by (simp add: json_sq_def cstr_def)
  have f3: "\<not> sublist ?dq (cstr (take 511 json_sq))"
    by (simp add: json_sq_def cstr_def sublist_Cons_right)
  have f4: "\<not> sublist ?sq (''{'' @ SQUOTE # ''port'')" by (simp add: sublist_Cons_right)
  have f5: "read_port id (fs_config (Some json_sq) None) ''/r'' = atoi id '' 9999}''"
    by (rule E [THEN conjunct2, THEN conjunct2, THEN conjunct2, THEN conjunct2, THEN conjunct1,
      rule_format, of json_sq "''{''" "[]" "'' 9999}''"]) (intro conjI f1 f2 f3 f4 e4)
  have f6: "read_port id (fs_config (Some json_sq) None) ''/r'' = 9999"
    using f5 e6 by (simp add: digits_9999)
  \<comment> \<open>the key without a colon\<close>
  note F = read_port_layers [OF h0, of "fs_config (Some json_no_colon) None" id]
  have g1: "fs_config (Some json_no_colon) None (''/r'' @ ''/run/server.json'') =
      Some json_no_colon"
    by (simp only: fs_config_simps)
  have g2: "cstr (take 511 json_no_colon) = ''{'' @ ?dq @ '' 9999}''"
    by (simp add: json_no_colon_def cstr_def)
  have g3: "CHR '':'' \<notin> set '' 9999}''" by simp
  have g4: "read_port id (fs_config (Some json_no_colon) None) ''/r'' = 7777"
    by (rule F [THEN conjunct2, THEN conjunct2, THEN conjunct2, THEN conjunct2, THEN conjunct2,
      THEN conjunct1, rule_format, of json_no_colon "''{''" "'' 9999}''"])
       (intro conjI g1 g2 e3 g3)
  \<comment> \<open>the key in single quotes without a colon\<close>
  note G = read_port_layers [OF h0, of "fs_config (Some json_sq_no_colon) (Some yaml_port)" id]
  have q1: "fs_config (Some json_sq_no_colon) (Some yaml_port) (''/r'' @ ''/run/server.json'') =
      Some json_sq_no_colon"
    by (simp only: fs_config_simps)
  have q2: "cstr (take 511 json_sq_no_colon) = ''{'' @ ?sq @ '' 9999}''"
    by (simp add: json_sq_no_colon_def cstr_def)
  have q3: "\<not> sublist ?dq (cstr (take 511 json_sq_no_colon))"
    by (simp add: json_sq_no_colon_def cstr_def sublist_Cons_right)
  have q4: "read_port id (fs_config (Some json_sq_no_colon) (Some yaml_port)) ''/r'' = 7777"
    by (rule G [THEN conjunct2, THEN conjunct2, THEN conjunct2, THEN conjunct2, THEN conjunct2,
      THEN conjunct2, THEN conjunct2, THEN conjunct2, THEN conjunct2, THEN conjunct2,
      THEN conjunct2, THEN conjunct1, rule_format, of json_sq_no_colon "''{''" "'' 9999}''"])
       (intro conjI q1 q2 q3 f4 g3)
  \<comment> \<open>a line of more than 255 bytes\<close>
  have m1: "LF \<notin> set (take 255 long_yaml)" by (simp add: long_yaml_def)
  have m2: "255 \<le> length long_yaml" by (simp add: long_yaml_def)
  have m3: "take 255 long_yaml = replicate 255 (CHR ''x'')"
    and m4: "drop 255 long_yaml = ''port: 4242'' @ [LF]"
    by (simp_all add: long_yaml_def)
  have m5: "yaml_scan id long_yaml =
      (case sscanf_port id (cstr (take 255 long_yaml)) of
         Some p \<Rightarrow> p | None \<Rightarrow> yaml_scan id (drop 255 long_yaml))"
    by (rule long_line) (intro conjI m1 m2)
  have m6: "sscanf_port id (cstr (replicate 255 (CHR ''x''))) = None"
    by (rule no_prefix) (rule not_port_replicate)
  have m7: "yaml_scan id long_yaml = 4242"
    using m5 by (simp only: m3 m4 m6 option.case l3')
  note H = read_port_layers [OF h0, of "fs_config None (Some long_yaml)" id]
  have m8: "read_port id (fs_config None (Some long_yaml)) ''/r'' = yaml_scan id long_yaml"
    by (rule H [THEN conjunct2, THEN conjunct1, rule_format, of long_yaml])
       (simp only: fs_config_simps)
  have m9: "read_port id (fs_config None (Some long_yaml)) ''/r'' = 4242"
    using m8 m7 by simp
  note no_number = B [THEN conjunct2, THEN conjunct2, THEN conjunct2, THEN conjunct2,
    THEN conjunct2, THEN conjunct2, THEN conjunct2, THEN conjunct2, THEN conjunct2,
    THEN conjunct2, THEN conjunct2, THEN conjunct2, THEN conjunct2, THEN conjunct2,
    THEN conjunct2, rule_format]
  have "sscanf_port id (''port:'' @ '' '' @ ''abc'') = None"
    by (rule no_number) (simp add: isspace_def isdigit_def)
  then have n1: "sscanf_port id ''port: abc'' = None" by simp
  show ?thesis
    by (intro conjI h0 a1 a2 a3 b2 b5 c1 c3 e2 e7 f2 f6 g2 g4 b8 b6 b7 q2 q4 m1 m2 m7 m9 n1)
qed

text \<open>
  A \<open>server.json\<close> that exists but has no port key does not fall back to
  \<open>config.yaml\<close>: the port is 7777 although \<open>config.yaml\<close> gives 4242.
\<close>

theorem read_port_no_fallback_counterexample:
  "fs_config (Some ''{}'') (Some (''port: 4242'' @ [LF])) ''/r/run/server.json'' = Some ''{}'' \<and>
   fs_config (Some ''{}'') (Some (''port: 4242'' @ [LF])) ''/r/config.yaml'' =
     Some (''port: 4242'' @ [LF]) \<and>
   yaml_scan id (''port: 4242'' @ [LF]) = 4242 \<and>
   read_port id (fs_config (Some ''{}'') (Some (''port: 4242'' @ [LF]))) ''/r'' = 7777"
proof -
  have y: "yaml_scan id (''port: 4242'' @ LF # []) = 4242"
  proof -
    have "sscanf_port id (''port:'' @ '' '' @ ''4242'' @ [LF]) = Some (int (digits_val ''4242''))"
      by (rule sscanf_port_digits) (simp_all add: isspace_def isdigit_def digits_4242 INT_MAX_def)
    then have "sscanf_port id (cstr (''port: 4242'' @ [LF])) = Some 4242"
      by (simp add: digits_4242 cstr_def)
    moreover have "yaml_scan id (''port: 4242'' @ LF # []) =
        (case sscanf_port id (cstr (''port: 4242'' @ [LF])) of Some p \<Rightarrow> p
         | None \<Rightarrow> yaml_scan id [])"
      by (rule yaml_scan_line) simp_all
    ultimately show ?thesis by simp
  qed
  have k: "port_key (cstr ''{}'') = None"
    by (rule port_key_none) (simp_all add: cstr_def sublist_Cons_right)
  have h0: "length ''/r'' + 16 < MAX_PATH_LEN" by (simp add: MAX_PATH_LEN_def)
  have r: "read_port id (fs_config (Some ''{}'') (Some (''port: 4242'' @ [LF]))) ''/r'' = 7777"
    using read_port_json [OF h0, of "fs_config (Some ''{}'') (Some (''port: 4242'' @ [LF]))" "''{}''" id]
    by (simp add: fs_config_def k)
  show ?thesis using y r by (simp add: fs_config_def)
qed

text \<open>
  Claim C9, as the code has it, for a root whose token path fits the path buffer.
  When \<open><root>/run/token\<close> cannot be opened the token is empty and the request has
  no \<open>Authorization\<close> header. Otherwise at most 511 bytes of the file are read (the
  buffer of 512 bytes keeps one for the NUL), the longest run of CR, LF and space at
  the end of what was read is removed and nothing else, and the token is the C string
  that is left; a file of at most 511 bytes without NUL that does not end in CR, LF or
  space is the token as it is. A longer file is cut, not refused.
\<close>

theorem read_token_resolved:
  assumes "length root + 10 < MAX_PATH_LEN"
  shows
  "(fs (root @ ''/run/token'') = None \<longrightarrow>
      read_token fs root 512 = [] \<and>
      http_request port pq (read_token fs root 512) =
        ''GET '' @ pq @ '' HTTP/1.0'' @ CRLF @ ''Host: localhost:'' @ fmt_d port @ CRLF @
        ''Accept: application/json'' @ CRLF @ CRLF) \<and>
   (\<forall>t. fs (root @ ''/run/token'') = Some t \<longrightarrow>
      (\<exists>kept ws. take 511 t = kept @ ws \<and> set ws \<subseteq> {LF, CR, CHR '' ''} \<and>
         (kept = [] \<or> last kept \<notin> {LF, CR, CHR '' ''}) \<and>
         read_token fs root 512 = cstr kept)) \<and>
   (\<forall>t. fs (root @ ''/run/token'') = Some t \<and> NUL \<notin> set t \<and> length t \<le> 511 \<and>
      (t = [] \<or> last t \<notin> {LF, CR, CHR '' ''}) \<longrightarrow> read_token fs root 512 = t) \<and>
   length (read_token fs root 512) \<le> 511"
proof -
  have p: "fmt_into MAX_PATH_LEN (root @ ''/run/token'') = root @ ''/run/token''"
    using assms by (simp add: fmt_into_fits)
  have a: "read_token fs root 512 = [] \<and>
      http_request port pq (read_token fs root 512) =
        ''GET '' @ pq @ '' HTTP/1.0'' @ CRLF @ ''Host: localhost:'' @ fmt_d port @ CRLF @
        ''Accept: application/json'' @ CRLF @ CRLF"
    if "fs (root @ ''/run/token'') = None"
    using that by (simp add: read_token_def p http_request_def)
  have b: "\<exists>kept ws. take 511 t = kept @ ws \<and> set ws \<subseteq> {LF, CR, CHR '' ''} \<and>
         (kept = [] \<or> last kept \<notin> {LF, CR, CHR '' ''}) \<and>
         read_token fs root 512 = cstr kept"
    if "fs (root @ ''/run/token'') = Some t" for t
  proof -
    let ?out = "take 511 t"
    let ?k = "trim_trailing ?out (length ?out)"
    have r: "read_token fs root 512 = cstr (take ?k ?out)"
      using that by (simp add: read_token_def p Let_def)
    from trim_trailing_split [of ?out] r show ?thesis
      unfolding trailing_ws_def by blast
  qed
  have c: "read_token fs root 512 = t"
    if "fs (root @ ''/run/token'') = Some t" "NUL \<notin> set t" "length t \<le> 511"
      "t = [] \<or> last t \<notin> {LF, CR, CHR '' ''}" for t
  proof -
    have o: "take 511 t = t" using that(3) by simp
    have "trim_trailing t (length t) = length t"
    proof (cases "t = []")
      case True
      then show ?thesis by simp
    next
      case False
      with that(4) have "t ! (length t - 1) \<notin> trailing_ws"
        by (simp add: last_conv_nth trailing_ws_def)
      with False show ?thesis by (simp add: trim_trailing_id)
    qed
    then show ?thesis
      using that(1,2) by (simp add: read_token_def p Let_def o cstr_no_NUL)
  qed
  have d: "length (read_token fs root 512) \<le> 511"
  proof (cases "fs (root @ ''/run/token'')")
    case None
    then show ?thesis by (simp add: read_token_def p)
  next
    case (Some t)
    let ?out = "take 511 t"
    let ?k = "trim_trailing ?out (length ?out)"
    have "length (cstr (take ?k ?out)) \<le> length (take ?k ?out)" by (rule length_cstr_le)
    also have "\<dots> \<le> 511" by simp
    finally show ?thesis using Some by (simp add: read_token_def p Let_def)
  qed
  show ?thesis using a b c d by blast
qed

theorem read_token_resolved_witness:
  "length ''/r'' + 10 < MAX_PATH_LEN \<and>
   fs_none (''/r'' @ ''/run/token'') = None \<and>
   read_token fs_none ''/r'' 512 = [] \<and>
   http_request 7777 ''/x'' (read_token fs_none ''/r'' 512) =
     ''GET /x HTTP/1.0'' @ CRLF @ ''Host: localhost:7777'' @ CRLF @
     ''Accept: application/json'' @ CRLF @ CRLF \<and>
   fs_token (''tok 1'' @ [CR, LF, CHR '' '', LF]) (''/r'' @ ''/run/token'') =
     Some (''tok 1'' @ [CR, LF, CHR '' '', LF]) \<and>
   read_token (fs_token (''tok 1'' @ [CR, LF, CHR '' '', LF])) ''/r'' 512 = ''tok 1'' \<and>
   (\<exists>kept ws. take 511 (''tok 1'' @ [CR, LF, CHR '' '', LF]) = kept @ ws \<and>
      set ws \<subseteq> {LF, CR, CHR '' ''} \<and> (kept = [] \<or> last kept \<notin> {LF, CR, CHR '' ''}) \<and>
      read_token (fs_token (''tok 1'' @ [CR, LF, CHR '' '', LF])) ''/r'' 512 = cstr kept) \<and>
   fs_token '' tok'' (''/r'' @ ''/run/token'') = Some '' tok'' \<and> NUL \<notin> set '' tok'' \<and>
   length '' tok'' \<le> 511 \<and> last '' tok'' \<notin> {LF, CR, CHR '' ''} \<and>
   read_token (fs_token '' tok'') ''/r'' 512 = '' tok'' \<and>
   length (read_token (fs_token (replicate 600 (CHR ''a''))) ''/r'' 512) \<le> 511"
proof -
  have h0: "length ''/r'' + 10 < MAX_PATH_LEN" by (simp add: MAX_PATH_LEN_def)
  note N = read_token_resolved [OF h0, of fs_none 7777 "''/x''"]
  have n1: "fs_none (''/r'' @ ''/run/token'') = None" by (simp add: fs_none_def)
  note n2 = N [THEN conjunct1, THEN mp, OF n1]
  note n3 = n2 [THEN conjunct1]
  have n4: "http_request 7777 ''/x'' (read_token fs_none ''/r'' 512) =
     ''GET /x HTTP/1.0'' @ CRLF @ ''Host: localhost:7777'' @ CRLF @
     ''Accept: application/json'' @ CRLF @ CRLF"
    using n2 [THEN conjunct2] by (simp add: fmt_d_7777)
  let ?t = "''tok 1'' @ [CR, LF, CHR '' '', LF]"
  note T = read_token_resolved [OF h0, of "fs_token ?t" 7777 "''/x''"]
  have t1: "fs_token ?t (''/r'' @ ''/run/token'') = Some ?t" by (simp add: fs_token_def)
  from T have "\<forall>t. fs_token ?t (''/r'' @ ''/run/token'') = Some t \<longrightarrow>
      (\<exists>kept ws. take 511 t = kept @ ws \<and> set ws \<subseteq> {LF, CR, CHR '' ''} \<and>
         (kept = [] \<or> last kept \<notin> {LF, CR, CHR '' ''}) \<and>
         read_token (fs_token ?t) ''/r'' 512 = cstr kept)"
    by (elim conjE)
  from this [rule_format, OF t1]
  have t2: "\<exists>kept ws. take 511 ?t = kept @ ws \<and> set ws \<subseteq> {LF, CR, CHR '' ''} \<and>
      (kept = [] \<or> last kept \<notin> {LF, CR, CHR '' ''}) \<and>
      read_token (fs_token ?t) ''/r'' 512 = cstr kept" .
  have t3: "read_token (fs_token ?t) ''/r'' 512 = ''tok 1''"
    by (rule read_token_eval [where ws = "[CR, LF, CHR '' '', LF]"])
       (simp_all add: trailing_ws_def)
  let ?u = "'' tok''"
  note U = read_token_resolved [OF h0, of "fs_token ?u" 7777 "''/x''"]
  have u1: "fs_token ?u (''/r'' @ ''/run/token'') = Some ?u" by (simp add: fs_token_def)
  have u2: "NUL \<notin> set ?u" "length ?u \<le> 511" "last ?u \<notin> {LF, CR, CHR '' ''}" by simp_all
  from U have "\<forall>t. fs_token ?u (''/r'' @ ''/run/token'') = Some t \<and> NUL \<notin> set t \<and>
      length t \<le> 511 \<and> (t = [] \<or> last t \<notin> {LF, CR, CHR '' ''}) \<longrightarrow>
      read_token (fs_token ?u) ''/r'' 512 = t"
    by (elim conjE)
  from this [rule_format, of ?u] u1 u2 have u3: "read_token (fs_token ?u) ''/r'' 512 = ?u"
    by blast
  from read_token_resolved [OF h0, of "fs_token (replicate 600 (CHR ''a''))" 7777 "''/x''"]
  have c: "length (read_token (fs_token (replicate 600 (CHR ''a''))) ''/r'' 512) \<le> 511"
    by (elim conjE)
  show ?thesis
    using h0 n1 n3 n4 t1 t3 t2 u1 u2 u3 c by (intro conjI)
qed

text \<open>
  The cap is 511 bytes, not 512: of a file of exactly 512 bytes the last one is lost.
\<close>

theorem read_token_cap_counterexample:
  "length (replicate 512 (CHR ''a'')) \<le> 512 \<and>
   read_token (fs_token (replicate 512 (CHR ''a''))) ''/r'' 512 = replicate 511 (CHR ''a'') \<and>
   replicate 511 (CHR ''a'') \<noteq> replicate 512 (CHR ''a'')"
proof -
  have t: "trim_trailing (replicate 511 (CHR ''a'')) 511 = 511"
    by (rule trim_trailing_id) (simp_all add: trailing_ws_def)
  have r: "read_token (fs_token (replicate 512 (CHR ''a''))) ''/r'' 512 = replicate 511 (CHR ''a'')"
    by (simp add: read_token_def fs_token_def fmt_into_def MAX_PATH_LEN_def Let_def t cstr_no_NUL)
  have n: "replicate 511 (CHR ''a'') \<noteq> replicate 512 (CHR ''a'')"
  proof
    assume "replicate 511 (CHR ''a'') = replicate 512 (CHR ''a'')"
    then have "length (replicate 511 (CHR ''a'')) = length (replicate 512 (CHR ''a''))"
      by (rule arg_cong)
    then show False by simp
  qed
  from r n show ?thesis by simp
qed

section \<open>ConfigLocator: the claims\<close>

text \<open>
  Claim C7, as the code has it, for a start directory whose probes fit the path
  buffer. The directories probed are the start and those reached by cutting it at its
  last \<open>/\<close>, again and again, while that \<open>/\<close> is not its first byte: nearest first,
  and never the empty prefix, so the file system root is probed only when the start
  is the root. A directory matches when \<open><dir>/.codeplane\<close> or
  \<open><dir>/.codeplane/config.yaml\<close> can be opened. The result is \<open><dir>/.codeplane\<close> for
  the first directory that matches, and not found exactly when none of them matches
  or the working directory cannot be read.
\<close>

theorem find_codeplane_dir_walk:
  assumes "length start + 23 < MAX_PATH_LEN"
  shows
  "find_codeplane_dir (Some start) fs MAX_PATH_LEN =
     map_option (\<lambda>d. d @ ''/.codeplane'') (List.find (has_marker fs) (walk_dirs start)) \<and>
   (find_codeplane_dir (Some start) fs MAX_PATH_LEN = None \<longleftrightarrow>
      (\<forall>d\<in>set (walk_dirs start). \<not> has_marker fs d)) \<and>
   (\<forall>d. d \<in> set (walk_dirs start) \<longleftrightarrow>
      d = start \<or> (\<exists>k. 1 \<le> k \<and> k < length start \<and> start ! k = CHR ''/'' \<and> d = take k start)) \<and>
   sorted_wrt (\<lambda>a b. length b < length a) (walk_dirs start) \<and>
   (start \<noteq> [] \<longrightarrow> [] \<notin> set (walk_dirs start)) \<and>
   find_codeplane_dir None fs MAX_PATH_LEN = None"
proof -
  have a: "find_codeplane_dir (Some start) fs MAX_PATH_LEN =
     map_option (\<lambda>d. d @ ''/.codeplane'') (List.find (has_marker fs) (walk_dirs start))"
    using assms by (rule find_codeplane_dir_eq)
  have b: "find_codeplane_dir (Some start) fs MAX_PATH_LEN = None \<longleftrightarrow>
      (\<forall>d\<in>set (walk_dirs start). \<not> has_marker fs d)"
    by (auto simp: a find_None_iff)
  have c: "\<forall>d. d \<in> set (walk_dirs start) \<longleftrightarrow>
      d = start \<or> (\<exists>k. 1 \<le> k \<and> k < length start \<and> start ! k = CHR ''/'' \<and> d = take k start)"
    using walk_dirs_mem by blast
  have d: "sorted_wrt (\<lambda>a b. length b < length a) (walk_dirs start)"
    by (rule walk_dirs_nearest_first)
  have e: "[] \<notin> set (walk_dirs start)" if "start \<noteq> []"
    using that by (auto simp: walk_dirs_mem)
  have f: "find_codeplane_dir None fs MAX_PATH_LEN = None"
    by (simp add: find_codeplane_dir_def getcwd_def)
  from a b c d e f show ?thesis by blast
qed

theorem find_codeplane_dir_walk_witness:
  "length ''/proj/a/b/c'' + 23 < MAX_PATH_LEN \<and>
   walk_dirs ''/proj/a/b/c'' = [''/proj/a/b/c'', ''/proj/a/b'', ''/proj/a'', ''/proj''] \<and>
   find_codeplane_dir (Some ''/proj/a/b/c'') fs_proj MAX_PATH_LEN = Some ''/proj/a/.codeplane'' \<and>
   find_codeplane_dir (Some ''/proj'') fs_proj MAX_PATH_LEN = Some ''/proj/.codeplane'' \<and>
   list_all (\<lambda>d. \<not> has_marker fs_none d) (walk_dirs ''/proj/a/b/c'') \<and>
   find_codeplane_dir (Some ''/proj/a/b/c'') fs_none MAX_PATH_LEN = None \<and>
   ''/proj/a/b/c'' \<noteq> [] \<and> [] \<notin> set (walk_dirs ''/proj/a/b/c'') \<and>
   find_codeplane_dir None fs_proj MAX_PATH_LEN = None"
proof -
  have h: "length ''/proj/a/b/c'' + 23 < MAX_PATH_LEN" by (simp add: MAX_PATH_LEN_def)
  have h2: "length ''/proj'' + 23 < MAX_PATH_LEN" by (simp add: MAX_PATH_LEN_def)
  note P = find_codeplane_dir_walk [OF h, of fs_proj]
  note Q = find_codeplane_dir_walk [OF h2, of fs_proj]
  note E = find_codeplane_dir_walk [OF h, of fs_none]
  have w2: "walk_dirs ''/proj'' = [''/proj'']" by code_simp
  have p1: "find_codeplane_dir (Some ''/proj/a/b/c'') fs_proj MAX_PATH_LEN =
      Some ''/proj/a/.codeplane''"
    using P [THEN conjunct1] by (simp add: walk_proj has_marker_def fs_proj_def)
  have q1: "find_codeplane_dir (Some ''/proj'') fs_proj MAX_PATH_LEN = Some ''/proj/.codeplane''"
    using Q [THEN conjunct1] by (simp add: w2 has_marker_def fs_proj_def)
  have e0: "\<forall>d\<in>set (walk_dirs ''/proj/a/b/c''). \<not> has_marker fs_none d"
    by (simp add: has_marker_def fs_none_def)
  have e1: "find_codeplane_dir (Some ''/proj/a/b/c'') fs_none MAX_PATH_LEN = None"
    using E [THEN conjunct2, THEN conjunct1] e0 by (rule iffD2)
  have e2: "list_all (\<lambda>d. \<not> has_marker fs_none d) (walk_dirs ''/proj/a/b/c'')"
    using e0 by (simp only: list_all_iff)
  have n0: "''/proj/a/b/c'' \<noteq> []" by simp
  have n1: "[] \<notin> set (walk_dirs ''/proj/a/b/c'')"
    by (rule P [THEN conjunct2, THEN conjunct2, THEN conjunct2, THEN conjunct2, THEN conjunct1,
      THEN mp, OF n0])
  have g: "find_codeplane_dir None fs_proj MAX_PATH_LEN = None"
    by (rule P [THEN conjunct2, THEN conjunct2, THEN conjunct2, THEN conjunct2, THEN conjunct2])
  show ?thesis by (intro conjI h walk_proj p1 q1 e2 e1 n0 n1 g)
qed

text \<open>
  Started three directories below a file system root that holds
  \<open>.codeplane/config.yaml\<close>, the walk stops at \<open>/a\<close> and the marker of the root is
  not found.
\<close>

theorem find_codeplane_dir_root_counterexample:
  "has_marker fs_root [] \<and> has_marker fs_root ''/'' \<and>
   find_codeplane_dir (Some ''/a/b/c'') fs_root MAX_PATH_LEN = None"
proof -
  have h: "length ''/a/b/c'' + 23 < MAX_PATH_LEN" by (simp add: MAX_PATH_LEN_def)
  have "List.find (has_marker fs_root) (walk_dirs ''/a/b/c'') = None"
    by (simp add: walk_abc has_marker_def fs_root_def)
  then have "find_codeplane_dir (Some ''/a/b/c'') fs_root MAX_PATH_LEN = None"
    by (simp add: find_codeplane_dir_eq [OF h])
  then show ?thesis by (simp add: has_marker_def fs_root_def)
qed

section \<open>Argument errors\<close>

text \<open>
  Claim C8, as the code has it. For every argument vector with a missing subcommand or an
  unknown subcommand, and for every one with a missing required argument (\<open>--session\<close> or
  \<open>--endpoint\<close> for \<open>list\<close>, \<open>--cache\<close> for \<open>slice\<close> or \<open>meta\<close>) whose program name \<open>argv[0]\<close>
  is not itself one of these three option names, \<open>main\<close> returns exit code 1 and its whole
  trace is a non-empty list of writes to standard error: no socket is opened, nothing is
  connected, sent or received, and nothing is written to standard output. What is written
  depends on the case: the usage text when the subcommand is missing; otherwise, when no
  \<open>.codeplane\<close> is found from the working directory, the not-found message; otherwise one
  line naming the required argument (without the usage text) when a required argument is
  missing, and the unknown-command line followed by the usage text when the subcommand is
  unknown. \<open>find_arg\<close> scans \<open>argv\<close> from \<open>argv[0]\<close>: it misses a name exactly when the name
  is no element of \<open>argv\<close> before the last, and a program name that equals the name makes
  the subcommand its value, so that \<open>meta\<close> run under the name \<open>--cache\<close> requests the cache
  entry \<open>meta\<close>.
\<close>

theorem usage_errors_no_network:
  "(usage_error argv \<and>
      (length argv < 2 \<or>
       (argv ! 1 \<noteq> ''list'' \<and> argv ! 1 \<noteq> ''slice'' \<and> argv ! 1 \<noteq> ''meta'') \<or>
       hd argv \<notin> option_names) \<longrightarrow>
      (\<exists>evs. main e argv = Some (evs, 1) \<and> evs \<noteq> [] \<and> (\<forall>ev\<in>set evs. \<exists>m. ev = Stderr m))) \<and>
   (length argv < 2 \<longrightarrow> main e argv = Some ([Stderr usage], 1)) \<and>
   (2 \<le> length argv \<and> find_codeplane_dir (workdir e) (files e) MAX_PATH_LEN = None \<longrightarrow>
      main e argv = Some ([Stderr not_found_msg], 1)) \<and>
   (\<forall>d. 2 \<le> length argv \<and> find_codeplane_dir (workdir e) (files e) MAX_PATH_LEN = Some d \<longrightarrow>
      (argv ! 1 = ''list'' \<and> hd argv \<notin> option_names \<and>
         (\<not> arg_given argv ''--session'' \<or> \<not> arg_given argv ''--endpoint'') \<longrightarrow>
         main e argv =
           Some ([Stderr (''cpljson list: --session and --endpoint required'' @ [LF])], 1)) \<and>
      (argv ! 1 = ''slice'' \<and> hd argv \<notin> option_names \<and> \<not> arg_given argv ''--cache'' \<longrightarrow>
         main e argv = Some ([Stderr (''cpljson slice: --cache required'' @ [LF])], 1)) \<and>
      (argv ! 1 = ''meta'' \<and> hd argv \<notin> option_names \<and> \<not> arg_given argv ''--cache'' \<longrightarrow>
         main e argv = Some ([Stderr (''cpljson meta: --cache required'' @ [LF])], 1)) \<and>
      (argv ! 1 \<noteq> ''list'' \<and> argv ! 1 \<noteq> ''slice'' \<and> argv ! 1 \<noteq> ''meta'' \<longrightarrow>
         main e argv =
           Some ([Stderr (''cpljson: unknown command '' @ [SQUOTE] @ argv ! 1 @ [SQUOTE, LF]),
                  Stderr usage], 1))) \<and>
   (\<forall>d. 2 \<le> length argv \<and> find_codeplane_dir (workdir e) (files e) MAX_PATH_LEN = Some d \<longrightarrow>
      (argv ! 1 = ''list'' \<and>
         (find_arg argv ''--session'' = None \<or> find_arg argv ''--endpoint'' = None) \<longrightarrow>
         main e argv =
           Some ([Stderr (''cpljson list: --session and --endpoint required'' @ [LF])], 1)) \<and>
      (argv ! 1 = ''slice'' \<and> find_arg argv ''--cache'' = None \<longrightarrow>
         main e argv = Some ([Stderr (''cpljson slice: --cache required'' @ [LF])], 1)) \<and>
      (argv ! 1 = ''meta'' \<and> find_arg argv ''--cache'' = None \<longrightarrow>
         main e argv = Some ([Stderr (''cpljson meta: --cache required'' @ [LF])], 1)) \<and>
      (argv ! 1 = ''meta'' \<and> hd argv = ''--cache'' \<longrightarrow>
         main e argv =
           http_get e (read_port (int_ovf e) (files e) d) ''/sidecar/cache/meta?cache=meta''
             (read_token (files e) d 512))) \<and>
   (\<forall>name. find_arg argv name = None \<longleftrightarrow> name \<notin> set (butlast argv)) \<and>
   (\<forall>name. 2 \<le> length argv \<and> hd argv = name \<longrightarrow> find_arg argv name = Some (argv ! 1))"
proof -
  let ?known = "argv ! 1 = ''list'' \<or> argv ! 1 = ''slice'' \<or> argv ! 1 = ''meta''"
  have c1: "\<exists>evs. main e argv = Some (evs, 1) \<and> evs \<noteq> [] \<and> (\<forall>ev\<in>set evs. \<exists>m. ev = Stderr m)"
    if "usage_error argv \<and>
      (length argv < 2 \<or>
       (argv ! 1 \<noteq> ''list'' \<and> argv ! 1 \<noteq> ''slice'' \<and> argv ! 1 \<noteq> ''meta'') \<or>
       hd argv \<notin> option_names)"
    using that main_usage_error [of argv e] by blast
  have c2: "main e argv = Some ([Stderr usage], 1)" if "length argv < 2"
    using that by (rule main_no_subcommand)
  have c3: "main e argv = Some ([Stderr not_found_msg], 1)"
    if "2 \<le> length argv \<and> find_codeplane_dir (workdir e) (files e) MAX_PATH_LEN = None"
    using that main_not_found [of argv e] by blast
  have g: "find_arg argv name = None \<longleftrightarrow> \<not> arg_given argv name"
    if "2 \<le> length argv" "?known" "hd argv \<notin> option_names" "name \<in> option_names" for name
  proof -
    from that(2) have "argv ! 1 \<notin> option_names" using option_names_not_cmd by auto
    with that(1,3) show ?thesis using that(4) by (rule find_arg_required)
  qed
  have names: "''--session'' \<in> option_names" "''--endpoint'' \<in> option_names"
    "''--cache'' \<in> option_names"
    by (simp_all add: option_names_def)
  have c4: "main e argv =
      Some ([Stderr (''cpljson list: --session and --endpoint required'' @ [LF])], 1)"
    if "2 \<le> length argv \<and> find_codeplane_dir (workdir e) (files e) MAX_PATH_LEN = Some d"
      "argv ! 1 = ''list'' \<and> hd argv \<notin> option_names \<and>
         (\<not> arg_given argv ''--session'' \<or> \<not> arg_given argv ''--endpoint'')" for d
  proof -
    from that have l: "2 \<le> length argv"
      and f: "find_codeplane_dir (workdir e) (files e) MAX_PATH_LEN = Some d"
      and k: "argv ! 1 = ''list''" and h: "hd argv \<notin> option_names" by simp_all
    from k have kn: ?known by simp
    from that(2) have "find_arg argv ''--session'' = None \<or> find_arg argv ''--endpoint'' = None"
      unfolding g [OF l kn h names(1)] g [OF l kn h names(2)] by blast
    with l f k show ?thesis by (rule main_list_missing)
  qed
  have c5: "main e argv = Some ([Stderr (''cpljson slice: --cache required'' @ [LF])], 1)"
    if "2 \<le> length argv \<and> find_codeplane_dir (workdir e) (files e) MAX_PATH_LEN = Some d"
      "argv ! 1 = ''slice'' \<and> hd argv \<notin> option_names \<and> \<not> arg_given argv ''--cache''" for d
  proof -
    from that have l: "2 \<le> length argv"
      and f: "find_codeplane_dir (workdir e) (files e) MAX_PATH_LEN = Some d"
      and k: "argv ! 1 = ''slice''" and h: "hd argv \<notin> option_names" by simp_all
    from k have kn: ?known by simp
    from that(2) have "find_arg argv ''--cache'' = None"
      unfolding g [OF l kn h names(3)] by blast
    with l f k show ?thesis by (rule main_slice_missing)
  qed
  have c6: "main e argv = Some ([Stderr (''cpljson meta: --cache required'' @ [LF])], 1)"
    if "2 \<le> length argv \<and> find_codeplane_dir (workdir e) (files e) MAX_PATH_LEN = Some d"
      "argv ! 1 = ''meta'' \<and> hd argv \<notin> option_names \<and> \<not> arg_given argv ''--cache''" for d
  proof -
    from that have l: "2 \<le> length argv"
      and f: "find_codeplane_dir (workdir e) (files e) MAX_PATH_LEN = Some d"
      and k: "argv ! 1 = ''meta''" and h: "hd argv \<notin> option_names" by simp_all
    from k have kn: ?known by simp
    from that(2) have "find_arg argv ''--cache'' = None"
      unfolding g [OF l kn h names(3)] by blast
    with l f k show ?thesis by (rule main_meta_missing)
  qed
  have c7: "main e argv =
      Some ([Stderr (''cpljson: unknown command '' @ [SQUOTE] @ argv ! 1 @ [SQUOTE, LF]),
             Stderr usage], 1)"
    if "2 \<le> length argv \<and> find_codeplane_dir (workdir e) (files e) MAX_PATH_LEN = Some d"
      "argv ! 1 \<noteq> ''list'' \<and> argv ! 1 \<noteq> ''slice'' \<and> argv ! 1 \<noteq> ''meta''" for d
    using that main_unknown [of argv e d] by blast
  have c8: "main e argv =
      Some ([Stderr (''cpljson list: --session and --endpoint required'' @ [LF])], 1)"
    if "2 \<le> length argv \<and> find_codeplane_dir (workdir e) (files e) MAX_PATH_LEN = Some d"
      "argv ! 1 = ''list'' \<and>
         (find_arg argv ''--session'' = None \<or> find_arg argv ''--endpoint'' = None)" for d
    using that main_list_missing [of argv e d] by blast
  have c9: "main e argv = Some ([Stderr (''cpljson slice: --cache required'' @ [LF])], 1)"
    if "2 \<le> length argv \<and> find_codeplane_dir (workdir e) (files e) MAX_PATH_LEN = Some d"
      "argv ! 1 = ''slice'' \<and> find_arg argv ''--cache'' = None" for d
    using that main_slice_missing [of argv e d] by blast
  have c10: "main e argv = Some ([Stderr (''cpljson meta: --cache required'' @ [LF])], 1)"
    if "2 \<le> length argv \<and> find_codeplane_dir (workdir e) (files e) MAX_PATH_LEN = Some d"
      "argv ! 1 = ''meta'' \<and> find_arg argv ''--cache'' = None" for d
    using that main_meta_missing [of argv e d] by blast
  have c11: "main e argv =
      http_get e (read_port (int_ovf e) (files e) d) ''/sidecar/cache/meta?cache=meta''
        (read_token (files e) d 512)"
    if "2 \<le> length argv \<and> find_codeplane_dir (workdir e) (files e) MAX_PATH_LEN = Some d"
      "argv ! 1 = ''meta'' \<and> hd argv = ''--cache''" for d
    using that main_meta_program_name [of argv e d] by blast
  have c12: "find_arg argv name = None \<longleftrightarrow> name \<notin> set (butlast argv)" for name
    by (rule find_arg_None_iff)
  have c13: "find_arg argv name = Some (argv ! 1)" if "2 \<le> length argv \<and> hd argv = name" for name
    using that find_arg_program_name [of argv name] by blast
  show ?thesis
    by (intro conjI allI impI; (erule c1 c2 c3 c13 | rule c12 | (erule c4 c5 c6 c7 c8 c9 c10 c11, assumption)))
qed

theorem usage_errors_no_network_witness:
  "usage_error [''cpljson''] \<and> length [''cpljson''] < 2 \<and>
   main env_proj [''cpljson''] = Some ([Stderr usage], 1) \<and>
   usage_error [''cpljson'', ''meta''] \<and> hd [''cpljson'', ''meta''] \<notin> option_names \<and>
   find_codeplane_dir (workdir env0) (files env0) MAX_PATH_LEN = None \<and>
   main env0 [''cpljson'', ''meta''] = Some ([Stderr not_found_msg], 1) \<and>
   find_codeplane_dir (workdir env_proj) (files env_proj) MAX_PATH_LEN =
     Some ''/proj/.codeplane'' \<and>
   \<not> arg_given [''cpljson'', ''meta''] ''--cache'' \<and>
   main env_proj [''cpljson'', ''meta''] =
     Some ([Stderr (''cpljson meta: --cache required'' @ [LF])], 1) \<and>
   \<not> arg_given [''cpljson'', ''slice'', ''--path'', ''p''] ''--cache'' \<and>
   main env_proj [''cpljson'', ''slice'', ''--path'', ''p''] =
     Some ([Stderr (''cpljson slice: --cache required'' @ [LF])], 1) \<and>
   \<not> arg_given [''cpljson'', ''list'', ''--session'', ''s''] ''--endpoint'' \<and>
   main env_proj [''cpljson'', ''list'', ''--session'', ''s''] =
     Some ([Stderr (''cpljson list: --session and --endpoint required'' @ [LF])], 1) \<and>
   main env_proj [''cpljson'', ''frob''] =
     Some ([Stderr (''cpljson: unknown command '' @ [SQUOTE] @ ''frob'' @ [SQUOTE, LF]),
            Stderr usage], 1) \<and>
   (\<exists>evs. main env_proj [''cpljson'', ''frob''] = Some (evs, 1) \<and> evs \<noteq> [] \<and>
      list_all (\<lambda>ev. \<exists>m. ev = Stderr m) evs) \<and>
   (\<exists>evs. main env_proj [''cpljson'', ''meta''] = Some (evs, 1) \<and> evs \<noteq> [] \<and>
      list_all (\<lambda>ev. \<exists>m. ev = Stderr m) evs) \<and>
   find_arg [''--cache'', ''meta''] ''--cache'' = Some ''meta'' \<and>
   main env_proj [''--cache'', ''meta''] =
     http_get env_proj (read_port (int_ovf env_proj) (files env_proj) ''/proj/.codeplane'')
       ''/sidecar/cache/meta?cache=meta'' (read_token (files env_proj) ''/proj/.codeplane'' 512)"
proof -
  have u1: "usage_error [''cpljson'']" by (simp add: usage_error_def)
  have l1: "length [''cpljson''] < 2" by simp
  note A = usage_errors_no_network [of "[''cpljson'']" env_proj]
  have a1: "main env_proj [''cpljson''] = Some ([Stderr usage], 1)"
    by (rule A [THEN conjunct2, THEN conjunct1, THEN mp, OF l1])
  have u2: "usage_error [''cpljson'', ''meta'']" by (simp add: usage_error_def arg_given_def)
  have h2: "hd [''cpljson'', ''meta''] \<notin> option_names" by (simp add: option_names_def)
  note B = usage_errors_no_network [of "[''cpljson'', ''meta'']" env0]
  have b1: "main env0 [''cpljson'', ''meta''] = Some ([Stderr not_found_msg], 1)"
    by (rule B [THEN conjunct2, THEN conjunct2, THEN conjunct1, THEN mp])
       (simp add: find_env0)
  note per_cmd = usage_errors_no_network [THEN conjunct2, THEN conjunct2, THEN conjunct2,
    THEN conjunct1, rule_format]
  have m0: "\<not> arg_given [''cpljson'', ''meta''] ''--cache''" by (simp add: arg_given_def)
  have m1: "main env_proj [''cpljson'', ''meta''] =
     Some ([Stderr (''cpljson meta: --cache required'' @ [LF])], 1)"
    by (rule per_cmd [of "[''cpljson'', ''meta'']" env_proj "''/proj/.codeplane''",
        THEN conjunct2, THEN conjunct2, THEN conjunct1, THEN mp])
       (simp_all add: find_env_proj option_names_def arg_given_def)
  have s0: "\<not> arg_given [''cpljson'', ''slice'', ''--path'', ''p''] ''--cache''"
    by (simp add: arg_given_def)
  have s1: "main env_proj [''cpljson'', ''slice'', ''--path'', ''p''] =
     Some ([Stderr (''cpljson slice: --cache required'' @ [LF])], 1)"
    by (rule per_cmd [of "[''cpljson'', ''slice'', ''--path'', ''p'']" env_proj
        "''/proj/.codeplane''", THEN conjunct2, THEN conjunct1, THEN mp])
       (simp_all add: find_env_proj option_names_def arg_given_def)
  have t0: "\<not> arg_given [''cpljson'', ''list'', ''--session'', ''s''] ''--endpoint''"
    by (simp add: arg_given_def)
  have t1: "main env_proj [''cpljson'', ''list'', ''--session'', ''s''] =
     Some ([Stderr (''cpljson list: --session and --endpoint required'' @ [LF])], 1)"
    by (rule per_cmd [of "[''cpljson'', ''list'', ''--session'', ''s'']" env_proj
        "''/proj/.codeplane''", THEN conjunct1, THEN mp])
       (simp_all add: find_env_proj option_names_def arg_given_def)
  have k1: "main env_proj [''cpljson'', ''frob''] =
     Some ([Stderr (''cpljson: unknown command '' @ [SQUOTE] @ [''cpljson'', ''frob''] ! 1 @
              [SQUOTE, LF]), Stderr usage], 1)"
    by (rule per_cmd [of "[''cpljson'', ''frob'']" env_proj "''/proj/.codeplane''",
        THEN conjunct2, THEN conjunct2, THEN conjunct2, THEN mp])
       (simp_all add: find_env_proj)
  then have k2: "main env_proj [''cpljson'', ''frob''] =
     Some ([Stderr (''cpljson: unknown command '' @ [SQUOTE] @ ''frob'' @ [SQUOTE, LF]),
            Stderr usage], 1)"
    by simp
  have u3: "usage_error [''cpljson'', ''frob''] \<and>
      (length [''cpljson'', ''frob''] < 2 \<or>
       ([''cpljson'', ''frob''] ! 1 \<noteq> ''list'' \<and> [''cpljson'', ''frob''] ! 1 \<noteq> ''slice'' \<and>
        [''cpljson'', ''frob''] ! 1 \<noteq> ''meta'') \<or>
       hd [''cpljson'', ''frob''] \<notin> option_names)"
    by (simp add: usage_error_def)
  from usage_errors_no_network [of "[''cpljson'', ''frob'']" env_proj, THEN conjunct1, THEN mp,
    OF u3]
  have k3: "\<exists>evs. main env_proj [''cpljson'', ''frob''] = Some (evs, 1) \<and> evs \<noteq> [] \<and>
      list_all (\<lambda>ev. \<exists>m. ev = Stderr m) evs"
    by (simp only: list_all_iff)
  have u4: "usage_error [''cpljson'', ''meta''] \<and>
      (length [''cpljson'', ''meta''] < 2 \<or>
       ([''cpljson'', ''meta''] ! 1 \<noteq> ''list'' \<and> [''cpljson'', ''meta''] ! 1 \<noteq> ''slice'' \<and>
        [''cpljson'', ''meta''] ! 1 \<noteq> ''meta'') \<or>
       hd [''cpljson'', ''meta''] \<notin> option_names)"
    using u2 h2 by blast
  from usage_errors_no_network [of "[''cpljson'', ''meta'']" env_proj, THEN conjunct1, THEN mp,
    OF u4]
  have k4: "\<exists>evs. main env_proj [''cpljson'', ''meta''] = Some (evs, 1) \<and> evs \<noteq> [] \<and>
      list_all (\<lambda>ev. \<exists>m. ev = Stderr m) evs"
    by (simp only: list_all_iff)
  have n0: "find_arg [''--cache'', ''meta''] ''--cache'' = Some ''meta''" by simp
  note by_name = usage_errors_no_network [THEN conjunct2, THEN conjunct2, THEN conjunct2,
    THEN conjunct2, THEN conjunct1, rule_format]
  have n1: "main env_proj [''--cache'', ''meta''] =
     http_get env_proj (read_port (int_ovf env_proj) (files env_proj) ''/proj/.codeplane'')
       ''/sidecar/cache/meta?cache=meta'' (read_token (files env_proj) ''/proj/.codeplane'' 512)"
    by (rule by_name [of "[''--cache'', ''meta'']" env_proj "''/proj/.codeplane''",
        THEN conjunct2, THEN conjunct2, THEN conjunct2, THEN mp])
       (simp_all add: find_env_proj)
  show ?thesis
    by (intro conjI u1 l1 a1 u2 h2 find_env0 b1 find_env_proj m0 m1 s0 s1 t0 t1 k2 k3 k4 n0 n1)
qed

text \<open>
  Claim C8 as written says that each of these cases prints a usage message and that none
  attempts network I/O. \<open>cpljson meta\<close> with \<open>--cache\<close> missing prints only the line
  \<open>cpljson meta: --cache required\<close> inside a repository, and only the not-found message
  outside one; neither contains the usage text. And \<open>meta\<close> run under the program name
  \<open>--cache\<close>, with no \<open>--cache\<close> argument given, opens a socket and sends a request.
\<close>

theorem usage_message_counterexample:
  "main env_proj [''cpljson'', ''meta''] =
     Some ([Stderr (''cpljson meta: --cache required'' @ [LF])], 1) \<and>
   \<not> sublist ''Usage:'' (''cpljson meta: --cache required'' @ [LF]) \<and>
   main env0 [''cpljson'', ''meta''] =
     Some ([Stderr (''cpljson: .codeplane/ not found (are you in a CodePlane repo?)'' @ [LF])], 1) \<and>
   \<not> sublist ''Usage:'' (''cpljson: .codeplane/ not found (are you in a CodePlane repo?)'' @ [LF]) \<and>
   usage_error [''--cache'', ''meta''] \<and> \<not> arg_given [''--cache'', ''meta''] ''--cache'' \<and>
   main env_proj [''--cache'', ''meta''] =
     Some ([Socket, Connect 7777,
            Send (''GET /sidecar/cache/meta?cache=meta HTTP/1.0'' @ CRLF @
                  ''Host: localhost:7777'' @ CRLF @ ''Accept: application/json'' @ CRLF @ CRLF),
            Recv, Close, Stdout [LF]], 1)"
proof -
  have l: "2 \<le> length [''cpljson'', ''meta'']" by simp
  have a: "main env_proj [''cpljson'', ''meta''] =
     Some ([Stderr (''cpljson meta: --cache required'' @ [LF])], 1)"
    by (rule main_meta_missing [OF _ find_env_proj]) simp_all
  have b: "main env0 [''cpljson'', ''meta''] = Some ([Stderr not_found_msg], 1)"
    by (rule main_not_found [OF _ find_env0]) simp
  have c: "\<not> sublist ''Usage:'' (''cpljson meta: --cache required'' @ [LF])"
    by (simp add: sublist_Cons_right)
  have d: "\<not> sublist ''Usage:''
      (''cpljson: .codeplane/ not found (are you in a CodePlane repo?)'' @ [LF])"
    by (simp add: sublist_Cons_right)
  have e: "\<not> arg_given [''--cache'', ''meta''] ''--cache''" by (simp add: arg_given_def)
  have f: "usage_error [''--cache'', ''meta'']" by (simp add: usage_error_def arg_given_def)
  have abcd: "main env_proj [''cpljson'', ''meta''] =
       Some ([Stderr (''cpljson meta: --cache required'' @ [LF])], 1) \<and>
     \<not> sublist ''Usage:'' (''cpljson meta: --cache required'' @ [LF]) \<and>
     main env0 [''cpljson'', ''meta''] =
       Some ([Stderr (''cpljson: .codeplane/ not found (are you in a CodePlane repo?)'' @ [LF])],
             1) \<and>
     \<not> sublist ''Usage:''
       (''cpljson: .codeplane/ not found (are you in a CodePlane repo?)'' @ [LF])"
    using a b c d by (simp only: not_found_msg_def) simp
  show ?thesis
    by (intro conjI abcd [THEN conjunct1] abcd [THEN conjunct2, THEN conjunct1]
        abcd [THEN conjunct2, THEN conjunct2, THEN conjunct1]
        abcd [THEN conjunct2, THEN conjunct2, THEN conjunct2] f e main_proj_meta_program_name)
qed

section \<open>Query parameter values\<close>

text \<open>
  Claim C2, as the code builds the request paths. The values of \<open>--session\<close>, \<open>--endpoint\<close>,
  \<open>--cache\<close> and \<open>--path\<close> enter the path through \<open>url_encode\<close>. The values of
  \<open>--max-bytes\<close> and \<open>--offset\<close> are appended to the path of \<open>slice\<close> byte for byte as they
  were given, whatever they contain, as long as the path fits the buffer of \<open>MAX_URL_LEN\<close>
  bytes: nothing checks that they are digits with an optional sign. So
  \<open>--max-bytes '1&x=y z'\<close> puts an ampersand, an equals sign and a space into the request
  line, while the same text given as \<open>--path\<close> is percent-encoded.
\<close>

theorem query_values_as_built:
  assumes "length (''/sidecar/cache/slice?cache='' @ enc_out cache_id 1024 0 @ query_path path @
      query_raw ''&max_bytes='' max_bytes @ query_raw ''&offset='' offset) < MAX_URL_LEN"
    and "\<forall>x. max_bytes = Some x \<longrightarrow> NUL \<notin> set x"
    and "\<forall>x. offset = Some x \<longrightarrow> NUL \<notin> set x"
  shows "list_url session endpoint =
           Some (''/sidecar/cache/list?session='' @ enc_out session 1024 0 @
                 ''&endpoint='' @ enc_out endpoint 1024 0) \<and>
         meta_url cache_id = Some (''/sidecar/cache/meta?cache='' @ enc_out cache_id 1024 0) \<and>
         slice_url cache_id path max_bytes offset =
           Some (''/sidecar/cache/slice?cache='' @ enc_out cache_id 1024 0 @ query_path path @
                 query_raw ''&max_bytes='' max_bytes @ query_raw ''&offset='' offset)"
  using list_url_eq meta_url_eq slice_url_eq [OF assms] by (intro conjI)

theorem query_values_as_built_witness:
  "find_arg [''cpljson'', ''slice'', ''--cache'', ''abc'', ''--max-bytes'', ''1&x=y z'']
     ''--max-bytes'' = Some ''1&x=y z'' \<and>
   slice_url ''abc'' None (Some ''1&x=y z'') None =
     Some ''/sidecar/cache/slice?cache=abc&max_bytes=1&x=y z'' \<and>
   slice_url ''abc'' None None (Some ''1&x=y z'') =
     Some ''/sidecar/cache/slice?cache=abc&offset=1&x=y z'' \<and>
   slice_url ''abc'' (Some ''1&x=y z'') (Some ''10'') (Some ''-2'') =
     Some ''/sidecar/cache/slice?cache=abc&path=1%26x%3Dy%20z&max_bytes=10&offset=-2'' \<and>
   list_url ''abc'' ''1&x=y z'' =
     Some ''/sidecar/cache/list?session=abc&endpoint=1%26x%3Dy%20z'' \<and>
   meta_url ''1&x=y z'' = Some ''/sidecar/cache/meta?cache=1%26x%3Dy%20z''"
proof -
  have a: "find_arg [''cpljson'', ''slice'', ''--cache'', ''abc'', ''--max-bytes'', ''1&x=y z'']
     ''--max-bytes'' = Some ''1&x=y z''"
    by simp
  have b: "slice_url ''abc'' None (Some ''1&x=y z'') None =
     Some ''/sidecar/cache/slice?cache=abc&max_bytes=1&x=y z''"
    using query_values_as_built [of "''abc''" None "Some ''1&x=y z''" None,
      unfolded query_path_def query_raw_def option.case enc_abc enc_raw, THEN conjunct2, THEN conjunct2]
    by (simp add: MAX_URL_LEN_def)
  have c: "slice_url ''abc'' None None (Some ''1&x=y z'') =
     Some ''/sidecar/cache/slice?cache=abc&offset=1&x=y z''"
    using query_values_as_built [of "''abc''" None None "Some ''1&x=y z''",
      unfolded query_path_def query_raw_def option.case enc_abc enc_raw, THEN conjunct2, THEN conjunct2]
    by (simp add: MAX_URL_LEN_def)
  have d: "slice_url ''abc'' (Some ''1&x=y z'') (Some ''10'') (Some ''-2'') =
     Some ''/sidecar/cache/slice?cache=abc&path=1%26x%3Dy%20z&max_bytes=10&offset=-2''"
    using query_values_as_built [of "''abc''" "Some ''1&x=y z''" "Some ''10''" "Some ''-2''",
      unfolded query_path_def query_raw_def option.case enc_abc enc_raw, THEN conjunct2, THEN conjunct2]
    by (simp add: MAX_URL_LEN_def)
  have e: "list_url ''abc'' ''1&x=y z'' =
     Some ''/sidecar/cache/list?session=abc&endpoint=1%26x%3Dy%20z''"
    using query_values_as_built [of "''abc''" None None None "''abc''" "''1&x=y z''",
      unfolded query_path_def query_raw_def option.case enc_abc enc_raw, THEN conjunct1]
    by (simp add: MAX_URL_LEN_def)
  have f: "meta_url ''1&x=y z'' = Some ''/sidecar/cache/meta?cache=1%26x%3Dy%20z''"
    using query_values_as_built [of "''1&x=y z''" None None None,
      unfolded query_path_def query_raw_def option.case enc_abc enc_raw, THEN conjunct2, THEN conjunct1]
    by (simp add: MAX_URL_LEN_def)
  from a b c d e f show ?thesis by (intro conjI)
qed

end
